theory Spec2Isabelle
  imports Complex_Main "HOL-Library.Word"
begin

text \<open>
  The persistence core of the blog-authoring tool: the derivation of slugs and of the
  metadata of a post, the record store kept in \<open>localStorage\<close>
  (\<^verbatim>\<open>src/lib/storage.ts\<close>) and the autosave hook \<open>useAutoSave\<close>, each translated
  function by function, followed by the proofs of the properties stated of them.
\<close>

section \<open>Strings\<close>

text \<open>
  A JavaScript string is a sequence of UTF-16 code units; \<open>length\<close>, \<open>substring\<close>,
  \<open>trim\<close> and the regular expressions of \<^verbatim>\<open>src/lib/storage.ts\<close> (none has the
  \<open>u\<close> flag) all work on code units.
\<close>

type_synonym jschar = "16 word"
type_synonym jsstring = "jschar list"

definition lit :: "string \<Rightarrow> jsstring" where
  "lit s = map (\<lambda>c. of_nat (of_char c)) s"

definition hyphen :: jschar where
  "hyphen = 45"

text \<open>
  The class \<open>\s\<close> of a JavaScript regular expression, which is also what
  \<open>String.prototype.trim\<close> strips: WhiteSpace and LineTerminator code points.
\<close>

definition isSpace :: "jschar \<Rightarrow> bool" where
  "isSpace u \<longleftrightarrow>
     (9 \<le> u \<and> u \<le> 13) \<or> u = 32 \<or> u = 160 \<or> u = 5760 \<or> (8192 \<le> u \<and> u \<le> 8202) \<or>
     u = 8232 \<or> u = 8233 \<or> u = 8239 \<or> u = 8287 \<or> u = 12288 \<or> u = 65279"

definition isUpper :: "jschar \<Rightarrow> bool" where
  "isUpper u \<longleftrightarrow> 65 \<le> u \<and> u \<le> 90"

definition isLowerWord :: "jschar \<Rightarrow> bool" where
  "isLowerWord u \<longleftrightarrow> (48 \<le> u \<and> u \<le> 57) \<or> u = 95 \<or> (97 \<le> u \<and> u \<le> 122)"

text \<open>The class \<open>\w\<close>: \<open>[A-Za-z0-9_]\<close>.\<close>

definition isWord :: "jschar \<Rightarrow> bool" where
  "isWord u \<longleftrightarrow> isLowerWord u \<or> isUpper u"

definition isHyphen :: "jschar \<Rightarrow> bool" where
  "isHyphen u \<longleftrightarrow> u = hyphen"

definition trim :: "jsstring \<Rightarrow> jsstring" where
  "trim s = rev (dropWhile isSpace (rev (dropWhile isSpace s)))"

text \<open>\<open>s.replace(/P+/g, '-')\<close>: every maximal run of units in the class becomes one hyphen.\<close>

function collapseRuns :: "(jschar \<Rightarrow> bool) \<Rightarrow> jsstring \<Rightarrow> jsstring" where
  "collapseRuns P [] = []"
| "collapseRuns P (u # us) =
     (if P u then hyphen # collapseRuns P (dropWhile P us) else u # collapseRuns P us)"
  by pat_completeness auto
termination
  by (relation "measure (\<lambda>(P, s). length s)") (auto simp: length_dropWhile_le less_Suc_eq_le)

text \<open>
  \<open>String.prototype.toLowerCase\<close> follows the Unicode case tables; it is a parameter
  \<open>lc\<close> of the functions that call it. \<open>asciiLower\<close> is its restriction to ASCII input.
\<close>

definition asciiLower :: "jsstring \<Rightarrow> jsstring" where
  "asciiLower s = map (\<lambda>u. if isUpper u then u + 32 else u) s"

text \<open>
  What the proofs use of \<open>toLowerCase\<close>: its result has no letter \<open>A\<close>..\<open>Z\<close>, and an
  ASCII string without such a letter is returned as it is.
\<close>

definition lowerCasing :: "(jsstring \<Rightarrow> jsstring) \<Rightarrow> bool" where
  "lowerCasing lc \<longleftrightarrow>
     (\<forall>s. \<forall>u \<in> set (lc s). \<not> isUpper u) \<and>
     (\<forall>s. (\<forall>u \<in> set s. u < 128 \<and> \<not> isUpper u) \<longrightarrow> lc s = s)"

section \<open>Slugs\<close>

text \<open>
  \<^verbatim>\<open>title.toLowerCase().trim().replace(/[^\w\s-]/g, '').replace(/\s+/g, '-')
       .replace(/-+/g, '-').replace(/^-+|-+$/g, '')\<close>
\<close>

definition generateSlug :: "(jsstring \<Rightarrow> jsstring) \<Rightarrow> jsstring \<Rightarrow> jsstring" where
  "generateSlug lc title =
     (let s1 = trim (lc title);
          s2 = filter (\<lambda>u. isWord u \<or> isSpace u \<or> isHyphen u) s1;
          s3 = collapseRuns isSpace s2;
          s4 = collapseRuns isHyphen s3
      in rev (dropWhile isHyphen (rev (dropWhile isHyphen s4))))"

text \<open>No two adjacent hyphens.\<close>

fun noDoubleHyphen :: "jsstring \<Rightarrow> bool" where
  "noDoubleHyphen [] \<longleftrightarrow> True"
| "noDoubleHyphen [a] \<longleftrightarrow> True"
| "noDoubleHyphen (a # b # r) \<longleftrightarrow> \<not> (a = hyphen \<and> b = hyphen) \<and> noDoubleHyphen (b # r)"

definition noEdgeHyphen :: "jsstring \<Rightarrow> bool" where
  "noEdgeHyphen s \<longleftrightarrow> (case s of [] \<Rightarrow> True | u # _ \<Rightarrow> u \<noteq> hyphen \<and> last s \<noteq> hyphen)"


definition slugChar :: "jschar \<Rightarrow> bool" where
  "slugChar u \<longleftrightarrow> isLowerWord u \<or> u = hyphen"

section \<open>The data model (\<^verbatim>\<open>types.ts\<close>)\<close>

datatype BlogPostStatus = Draft | Scheduled | Published | Archived

datatype ContentBlockType = Heading | Paragraph | Image | Video | Callout | Code | Quote

datatype json =
  JNull | JBool bool | JNum int | JStr jsstring | JArr "json list" | JObj "(jsstring \<times> json) list"

record ImageAsset =
  img_id :: jsstring
  img_src :: jsstring
  img_alt :: jsstring
  img_caption :: "jsstring option"
  img_width :: "nat option"
  img_height :: "nat option"
  img_uploadedAt :: jsstring

record ContentBlock =
  block_id :: jsstring
  block_type :: ContentBlockType
  block_order :: int
  block_content :: jsstring
  block_metadata :: "(jsstring \<times> json) list option"

record Author =
  author_name :: jsstring
  author_email :: jsstring
  author_avatar :: "jsstring option"

record BlogPostMetadata =
  wordCount :: nat
  readingTime :: nat
  seoScore :: nat
  excerpt :: jsstring
  meta_keywords :: "jsstring list"

record BlogPost =
  post_id :: jsstring
  title :: jsstring
  slug :: jsstring
  status :: BlogPostStatus
  content :: "ContentBlock list"
  featuredImage :: "ImageAsset option"
  author :: Author
  metadata :: BlogPostMetadata
  tags :: "jsstring list"
  createdAt :: jsstring
  updatedAt :: jsstring
  publishedAt :: "jsstring option"
  scheduledAt :: "jsstring option"
  seoTitle :: "jsstring option"
  seoDescription :: "jsstring option"
  seoKeywords :: "jsstring list option"

record BlogPostCreateInput =
  in_title :: jsstring
  authorName :: jsstring
  authorEmail :: jsstring

text \<open>Every field of an update is optional; \<open>None\<close> is a property that is not there.\<close>

record BlogPostUpdateInput =
  upd_title :: "jsstring option"
  upd_slug :: "jsstring option"
  upd_status :: "BlogPostStatus option"
  upd_content :: "ContentBlock list option"
  upd_featuredImage :: "ImageAsset option"
  upd_tags :: "jsstring list option"
  upd_seoTitle :: "jsstring option"
  upd_seoDescription :: "jsstring option"
  upd_seoKeywords :: "jsstring list option"
  upd_scheduledAt :: "jsstring option"

definition noUpdates :: BlogPostUpdateInput where
  "noUpdates = \<lparr>upd_title = None, upd_slug = None, upd_status = None, upd_content = None,
     upd_featuredImage = None, upd_tags = None, upd_seoTitle = None, upd_seoDescription = None,
     upd_seoKeywords = None, upd_scheduledAt = None\<rparr>"

section \<open>Derived metadata (\<^verbatim>\<open>storage.ts\<close>)\<close>

definition MAX_STORAGE_SIZE :: nat where
  "MAX_STORAGE_SIZE = 5 * 1024 * 1024"

text \<open>\<^verbatim>\<open>Math.max(1, Math.ceil(wordCount / 200))\<close>\<close>

definition calculateReadingTime :: "nat \<Rightarrow> nat" where
  "calculateReadingTime wc = max 1 (nat \<lceil>real wc / 200\<rceil>)"

text \<open>
  \<^verbatim>\<open>contentBlocks.find((b) => b.type === 'paragraph')\<close>, then
  \<^verbatim>\<open>text.substring(0, 160).trim() + (text.length > 160 ? '...' : '')\<close>. The title is not used.
\<close>

definition extractExcerpt :: "jsstring \<Rightarrow> ContentBlock list \<Rightarrow> jsstring" where
  "extractExcerpt ttl contentBlocks =
     (let text = (case find (\<lambda>b. block_type b = Paragraph) contentBlocks of
                    None \<Rightarrow> [] | Some b \<Rightarrow> block_content b)
      in trim (take 160 text) @ (if length text > 160 then lit ''...'' else []))"

definition calculateSeoScore :: "jsstring \<Rightarrow> jsstring \<Rightarrow> nat \<Rightarrow> bool \<Rightarrow> nat \<Rightarrow> nat" where
  "calculateSeoScore ttl description wc hasImages keywordsCount =
     (let s1 = (if ttl \<noteq> [] \<and> 30 \<le> length ttl \<and> length ttl \<le> 60 then 15
                else if ttl \<noteq> [] \<and> 0 < length ttl then 8 else 0);
          s2 = s1 + (if description \<noteq> [] \<and> 120 \<le> length description \<and> length description \<le> 160
                     then 20
                     else if description \<noteq> [] \<and> 0 < length description then 10 else 0);
          s3 = s2 + (if 300 \<le> wc \<and> wc \<le> 3000 then 25 else if 100 \<le> wc then 12 else 0);
          s4 = s3 + (if hasImages then 15 else 0);
          s5 = s4 + (if 3 \<le> keywordsCount then 25
                     else if 0 < keywordsCount then keywordsCount * 8 else 0)
      in min 100 s5)"

text \<open>
  \<open>s.split(/\s+/)\<close>: the pieces between the maximal runs of white space; a string with
  no white space, the empty one too, is one piece. \<open>cur\<close> is the piece being read, reversed.
\<close>

fun splitAux :: "jsstring \<Rightarrow> bool \<Rightarrow> jsstring \<Rightarrow> jsstring list" where
  "splitAux cur inRun [] = [rev cur]"
| "splitAux cur inRun (u # us) =
     (if isSpace u then (if inRun then splitAux cur True us else rev cur # splitAux [] True us)
      else splitAux (u # cur) False us)"

definition splitSpaces :: "jsstring \<Rightarrow> jsstring list" where
  "splitSpaces s = splitAux [] False s"

definition countWords :: "ContentBlock list \<Rightarrow> nat" where
  "countWords blocks =
     foldl (\<lambda>n b. n + length (splitSpaces (block_content b))) 0
       (filter (\<lambda>b. block_type b = Paragraph) blocks)"

section \<open>The record store (\<^verbatim>\<open>storage.ts\<close>)\<close>

text \<open>
  What the platform gives and the repository does not define: \<open>toLowerCase\<close>; the size
  in bytes of the JSON text of a collection (\<open>new Blob([JSON.stringify(posts)]).size\<close>);
  and whether \<open>localStorage.setItem\<close> accepts that text or throws (a quota).
\<close>

record platform =
  toLowerCase :: "jsstring \<Rightarrow> jsstring"
  jsonSize :: "BlogPost list \<Rightarrow> nat"
  setItemOk :: "BlogPost list \<Rightarrow> bool"

text \<open>
  A JSON text is represented by what \<open>JSON.parse\<close> makes of it: a syntax error, a value
  that is not an array, or an array of posts (the source casts the parsed array to
  \<open>BlogPost[]\<close> without looking at its elements). \<open>JSON.stringify\<close> of a collection
  is the text \<open>ArrayOf\<close> of it. The store is the value under the key \<open>blog_posts\<close>,
  \<open>None\<close> when the key is not there.
\<close>

datatype jsonText = Unparsable | NotArray | ArrayOf "BlogPost list"

type_synonym localStorage = "jsonText option"

datatype storageError = LimitExceeded nat | SaveFailed

text \<open>The readings of \<open>Date.now()\<close>, \<open>Math.random()\<close> and \<open>new Date().toISOString()\<close>.\<close>

record readings =
  idMillis :: jsstring
  idRandom :: jsstring
  isoNow :: jsstring
  slugMillis :: jsstring

definition getObjectSize :: "platform \<Rightarrow> BlogPost list \<Rightarrow> nat" where
  "getObjectSize pf posts = jsonSize pf posts"

definition generateId :: "readings \<Rightarrow> jsstring" where
  "generateId r = lit ''bp_'' @ idMillis r @ lit ''_'' @ idRandom r"

definition setItem :: "platform \<Rightarrow> BlogPost list \<Rightarrow> localStorage option" where
  "setItem pf posts = (if setItemOk pf posts then Some (Some (ArrayOf posts)) else None)"

definition getAllPosts :: "localStorage \<Rightarrow> BlogPost list" where
  "getAllPosts st =
     (case st of None \<Rightarrow> [] | Some Unparsable \<Rightarrow> [] | Some NotArray \<Rightarrow> []
      | Some (ArrayOf posts) \<Rightarrow> posts)"

fun findIndex :: "('a \<Rightarrow> bool) \<Rightarrow> 'a list \<Rightarrow> nat option" where
  "findIndex P [] = None"
| "findIndex P (x # xs) = (if P x then Some 0 else map_option Suc (findIndex P xs))"

definition getPostById :: "localStorage \<Rightarrow> jsstring \<Rightarrow> BlogPost option" where
  "getPostById st i = find (\<lambda>p. post_id p = i) (getAllPosts st)"

definition getPostsByStatus :: "localStorage \<Rightarrow> BlogPostStatus \<Rightarrow> BlogPost list" where
  "getPostsByStatus st x = filter (\<lambda>p. status p = x) (getAllPosts st)"

text \<open>The object literal \<open>newPost\<close> of \<open>createPost\<close>.\<close>

definition newPost :: "platform \<Rightarrow> readings \<Rightarrow> BlogPostCreateInput \<Rightarrow> BlogPost" where
  "newPost pf r input =
     \<lparr>post_id = generateId r, title = in_title input,
      slug = generateSlug (toLowerCase pf) (in_title input), status = Draft, content = [],
      featuredImage = None,
      author = \<lparr>author_name = authorName input, author_email = authorEmail input,
                 author_avatar = None\<rparr>,
      metadata = \<lparr>wordCount = 0, readingTime = 0, seoScore = 0, excerpt = [],
                   meta_keywords = []\<rparr>,
      tags = [], createdAt = isoNow r, updatedAt = isoNow r, publishedAt = None,
      scheduledAt = None, seoTitle = None, seoDescription = None, seoKeywords = None\<rparr>"

text \<open>
  The capacity error is thrown outside \<open>try\<close>, a throwing \<open>setItem\<close> is rethrown as
  \<open>Failed to save post to localStorage\<close>.
\<close>

definition createPost ::
  "platform \<Rightarrow> readings \<Rightarrow> BlogPostCreateInput \<Rightarrow> localStorage
     \<Rightarrow> (storageError + BlogPost) \<times> localStorage" where
  "createPost pf r input st =
     (let posts = getAllPosts st @ [newPost pf r input];
          totalSize = getObjectSize pf posts
      in if totalSize > MAX_STORAGE_SIZE then (Inl (LimitExceeded totalSize), st)
         else (case setItem pf posts of
                 Some st' \<Rightarrow> (Inr (newPost pf r input), st')
               | None \<Rightarrow> (Inl SaveFailed, st)))"

text \<open>\<^verbatim>\<open>{ ...post, ...updates, id: post.id, createdAt: post.createdAt, updatedAt: now }\<close>\<close>

definition mergeUpdates :: "BlogPost \<Rightarrow> BlogPostUpdateInput \<Rightarrow> jsstring \<Rightarrow> BlogPost" where
  "mergeUpdates post updates now =
     post\<lparr>title := (case upd_title updates of Some v \<Rightarrow> v | None \<Rightarrow> title post),
          slug := (case upd_slug updates of Some v \<Rightarrow> v | None \<Rightarrow> slug post),
          status := (case upd_status updates of Some v \<Rightarrow> v | None \<Rightarrow> status post),
          content := (case upd_content updates of Some v \<Rightarrow> v | None \<Rightarrow> content post),
          featuredImage :=
            (case upd_featuredImage updates of Some v \<Rightarrow> Some v | None \<Rightarrow> featuredImage post),
          tags := (case upd_tags updates of Some v \<Rightarrow> v | None \<Rightarrow> tags post),
          seoTitle := (case upd_seoTitle updates of Some v \<Rightarrow> Some v | None \<Rightarrow> seoTitle post),
          seoDescription :=
            (case upd_seoDescription updates of Some v \<Rightarrow> Some v | None \<Rightarrow> seoDescription post),
          seoKeywords :=
            (case upd_seoKeywords updates of Some v \<Rightarrow> Some v | None \<Rightarrow> seoKeywords post),
          scheduledAt :=
            (case upd_scheduledAt updates of Some v \<Rightarrow> Some v | None \<Rightarrow> scheduledAt post),
          updatedAt := now\<rparr>"

text \<open>The block under \<^verbatim>\<open>if (updates.content)\<close>; an empty array is truthy.\<close>

definition recalculateMetadata :: "BlogPost \<Rightarrow> BlogPostUpdateInput \<Rightarrow> BlogPost" where
  "recalculateMetadata updatedPost updates =
     (case upd_content updates of
        None \<Rightarrow> updatedPost
      | Some blocks \<Rightarrow>
          (let wc = countWords blocks;
               hasImages = list_ex (\<lambda>b. block_type b = Image) blocks;
               keywordsCount = (case upd_seoKeywords updates of None \<Rightarrow> 0 | Some ks \<Rightarrow> length ks)
           in updatedPost\<lparr>metadata :=
                \<lparr>wordCount = wc, readingTime = calculateReadingTime wc,
                 seoScore = calculateSeoScore
                   (case upd_seoTitle updates of
                      None \<Rightarrow> title updatedPost
                    | Some v \<Rightarrow> if v = [] then title updatedPost else v)
                   (case upd_seoDescription updates of None \<Rightarrow> [] | Some v \<Rightarrow> v)
                   wc hasImages keywordsCount,
                 excerpt = extractExcerpt (title updatedPost) blocks,
                 meta_keywords = (case upd_seoKeywords updates of None \<Rightarrow> [] | Some ks \<Rightarrow> ks)\<rparr>\<rparr>))"

text \<open>The object \<open>updatedPost\<close> of \<open>updatePost\<close>, after the metadata block.\<close>

definition updatedPost :: "BlogPost \<Rightarrow> BlogPostUpdateInput \<Rightarrow> jsstring \<Rightarrow> BlogPost" where
  "updatedPost post updates now = recalculateMetadata (mergeUpdates post updates now) updates"

text \<open>Everything is inside \<open>try\<close>: the capacity error and a throwing \<open>setItem\<close> give \<open>null\<close>.\<close>

definition updatePost ::
  "platform \<Rightarrow> jsstring \<Rightarrow> jsstring \<Rightarrow> BlogPostUpdateInput \<Rightarrow> localStorage
     \<Rightarrow> BlogPost option \<times> localStorage" where
  "updatePost pf now i updates st =
     (let posts = getAllPosts st in
      case findIndex (\<lambda>p. post_id p = i) posts of
        None \<Rightarrow> (None, st)
      | Some postIndex \<Rightarrow>
          (let posts' = posts[postIndex := updatedPost (posts ! postIndex) updates now];
               totalSize = getObjectSize pf posts'
           in if totalSize > MAX_STORAGE_SIZE then (None, st)
              else (case setItem pf posts' of
                      Some st' \<Rightarrow> (Some (updatedPost (posts ! postIndex) updates now), st')
                    | None \<Rightarrow> (None, st))))"

definition deletePost :: "platform \<Rightarrow> jsstring \<Rightarrow> localStorage \<Rightarrow> bool \<times> localStorage" where
  "deletePost pf i st =
     (let posts = getAllPosts st;
          filtered = filter (\<lambda>p. post_id p \<noteq> i) posts
      in if length filtered = length posts then (False, st)
         else (case setItem pf filtered of
                 Some st' \<Rightarrow> (True, st')
               | None \<Rightarrow> (False, st)))"

text \<open>The object \<open>duplicatedPost\<close> of \<open>duplicatePost\<close>.\<close>

definition duplicatedPost :: "readings \<Rightarrow> BlogPost \<Rightarrow> BlogPost" where
  "duplicatedPost r post =
     post\<lparr>post_id := generateId r, slug := slug post @ lit ''-copy-'' @ slugMillis r,
          status := Draft, createdAt := isoNow r, updatedAt := isoNow r, publishedAt := None\<rparr>"

definition duplicatePost ::
  "platform \<Rightarrow> readings \<Rightarrow> jsstring \<Rightarrow> localStorage \<Rightarrow> BlogPost option \<times> localStorage" where
  "duplicatePost pf r i st =
     (case getPostById st i of
        None \<Rightarrow> (None, st)
      | Some post \<Rightarrow>
          (let posts = getAllPosts st @ [duplicatedPost r post];
               totalSize = getObjectSize pf posts
           in if totalSize > MAX_STORAGE_SIZE then (None, st)
              else (case setItem pf posts of
                      Some st' \<Rightarrow> (Some (duplicatedPost r post), st')
                    | None \<Rightarrow> (None, st))))"

definition clearAllPosts :: "localStorage \<Rightarrow> localStorage" where
  "clearAllPosts st = None"

text \<open>\<open>JSON.stringify(posts, null, 2)\<close>: the text of the stored collection.\<close>

definition exportPostsAsJson :: "localStorage \<Rightarrow> jsonText" where
  "exportPostsAsJson st = ArrayOf (getAllPosts st)"

datatype importError = NotAnArrayError | ImportLimitExceeded nat | Thrown

record importResult =
  success :: bool
  count :: nat
  import_error :: "importError option"

text \<open>The \<open>for\<close> loop of \<open>importPostsFromJson\<close> over the imported posts.\<close>

fun mergeImported :: "BlogPost list \<Rightarrow> nat \<Rightarrow> BlogPost list \<Rightarrow> BlogPost list \<times> nat" where
  "mergeImported mergedPosts importedCount [] = (mergedPosts, importedCount)"
| "mergeImported mergedPosts importedCount (post # rest) =
     (if findIndex (\<lambda>p. post_id p = post_id post) mergedPosts = None
      then mergeImported (mergedPosts @ [post]) (importedCount + 1) rest
      else mergeImported mergedPosts importedCount rest)"

definition importPostsFromJson ::
  "platform \<Rightarrow> jsonText \<Rightarrow> localStorage \<Rightarrow> importResult \<times> localStorage" where
  "importPostsFromJson pf jsonString st =
     (case jsonString of
        Unparsable \<Rightarrow> (\<lparr>success = False, count = 0, import_error = Some Thrown\<rparr>, st)
      | NotArray \<Rightarrow> (\<lparr>success = False, count = 0, import_error = Some NotAnArrayError\<rparr>, st)
      | ArrayOf importedPosts \<Rightarrow>
          (let (mergedPosts, importedCount) = mergeImported (getAllPosts st) 0 importedPosts;
               totalSize = getObjectSize pf mergedPosts
           in if totalSize > MAX_STORAGE_SIZE
              then (\<lparr>success = False, count = 0, import_error = Some (ImportLimitExceeded totalSize)\<rparr>, st)
              else (case setItem pf mergedPosts of
                      Some st' \<Rightarrow> (\<lparr>success = True, count = importedCount, import_error = None\<rparr>, st')
                    | None \<Rightarrow> (\<lparr>success = False, count = 0, import_error = Some Thrown\<rparr>, st))))"


section \<open>Sample values\<close>

text \<open>
  Values for the examples: a post with a given identifier and title, and a platform whose
  size of a collection is the number of code units of its titles (less than the size of
  any JSON text that holds them) and whose storage takes every write.
\<close>

definition samplePost :: "jsstring \<Rightarrow> jsstring \<Rightarrow> BlogPost" where
  "samplePost i t =
     \<lparr>post_id = i, title = t, slug = [], status = Draft, content = [], featuredImage = None,
      author = \<lparr>author_name = lit ''Ann'', author_email = lit ''ann@example.org'',
                 author_avatar = None\<rparr>,
      metadata = \<lparr>wordCount = 0, readingTime = 0, seoScore = 0, excerpt = [],
                   meta_keywords = []\<rparr>,
      tags = [], createdAt = lit ''2024-01-01T00:00:00.000Z'',
      updatedAt = lit ''2024-01-01T00:00:00.000Z'', publishedAt = None, scheduledAt = None,
      seoTitle = None, seoDescription = None, seoKeywords = None\<rparr>"

definition samplePlatform :: platform where
  "samplePlatform =
     \<lparr>toLowerCase = asciiLower, jsonSize = (\<lambda>ps. sum_list (map (\<lambda>p. length (title p)) ps)),
      setItemOk = (\<lambda>ps. True)\<rparr>"

definition sampleReadings :: readings where
  "sampleReadings =
     \<lparr>idMillis = lit ''1700000000000'', idRandom = lit ''k3j9x0a1b'',
      isoNow = lit ''2024-06-01T12:00:00.000Z'', slugMillis = lit ''1700000000001''\<rparr>"

definition paragraphBlock :: "jsstring \<Rightarrow> ContentBlock" where
  "paragraphBlock t =
     \<lparr>block_id = lit ''b1'', block_type = Paragraph, block_order = 0, block_content = t,
      block_metadata = None\<rparr>"

section \<open>The autosave controller (\<^verbatim>\<open>useAutoSave\<close>)\<close>

text \<open>
  The hook runs on one event loop: its code runs in tasks (a call of \<open>autoSave\<close>, a
  timer callback, the continuation of \<open>await onSave(data)\<close>, a window event), one at a
  time and each to its end. The state is the hook's React state and refs, together with
  the part of the environment the hook acts on: the clock (in milliseconds), the timers
  set with \<open>setTimeout\<close>, the calls of \<open>onSave\<close> whose promise has not settled, the log
  of the calls of \<open>onSave\<close> and the log of the draft backups written. \<open>setTimeout\<close> is
  taken as exact: a timer fires once the clock has reached its due time.
\<close>

record UseAutoSaveOptions =
  debounceDelay :: nat
  maxRetries :: nat
  retryDelay :: nat

definition defaultOptions :: UseAutoSaveOptions where
  "defaultOptions = \<lparr>debounceDelay = 3000, maxRetries = 3, retryDelay = 1000\<rparr>"

text \<open>
  The two closures given to \<open>setTimeout\<close>: the one of \<open>autoSave\<close>, and the one of the
  \<open>catch\<close> block, which holds the attempt number of the retry.
\<close>

datatype timerCallback = DebounceCallback | RetryCallback nat

record timer =
  timerId :: nat
  dueAt :: nat
  callback :: timerCallback

text \<open>A run of \<open>executeAutoSave\<close> suspended at \<open>await onSave(data)\<close>.\<close>

record saveCall =
  callData :: BlogPost
  attemptNumber :: nat

text \<open>What a promise is rejected with: an \<open>Error\<close> with its message, or another value.\<close>

datatype rejection = ErrorObject jsstring | OtherValue

record autosave =
  isSaving :: bool
  lastSavedAt :: "nat option"
  error :: "jsstring option"
  debounceTimerRef :: "nat option"
  retryCountRef :: nat
  pendingDataRef :: "BlogPost option"
  isSavingRef :: bool
  isOnlineRef :: bool
  listening :: bool
  clock :: nat
  timers :: "timer list"
  nextTimerId :: nat
  awaiting :: "saveCall list"
  onSaveCalls :: "(nat \<times> BlogPost) list"
  draftWritable :: bool
  draftWrites :: "(jsstring \<times> BlogPost \<times> nat) list"

text \<open>
  The hook as mounted: \<open>online\<close> is \<open>navigator.onLine\<close>. The ids that \<open>setTimeout\<close>
  gives are positive: they are counted from 1.
\<close>

definition initialHook :: "bool \<Rightarrow> bool \<Rightarrow> autosave" where
  "initialHook online writable =
     \<lparr>isSaving = False, lastSavedAt = None, error = None, debounceTimerRef = None,
      retryCountRef = 0, pendingDataRef = None, isSavingRef = False, isOnlineRef = online,
      listening = True, clock = 0, timers = [], nextTimerId = 1, awaiting = [],
      onSaveCalls = [], draftWritable = writable, draftWrites = []\<rparr>"

definition setTimeout :: "timerCallback \<Rightarrow> nat \<Rightarrow> autosave \<Rightarrow> nat \<times> autosave" where
  "setTimeout cb delay s =
     (nextTimerId s,
      s\<lparr>timers := timers s @ [\<lparr>timerId = nextTimerId s, dueAt = clock s + delay, callback = cb\<rparr>],
        nextTimerId := Suc (nextTimerId s)\<rparr>)"

definition clearTimeout :: "nat \<Rightarrow> autosave \<Rightarrow> autosave" where
  "clearTimeout i s = s\<lparr>timers := filter (\<lambda>x. timerId x \<noteq> i) (timers s)\<rparr>"

text \<open>The write is inside \<open>try\<close>; when \<open>setItem\<close> throws, a warning is logged and that is all.\<close>

definition draftKey :: "BlogPost \<Rightarrow> jsstring" where
  "draftKey d = lit ''blog_draft_'' @ (if post_id d = [] then lit ''new'' else post_id d)"

definition saveToLocalStorage :: "BlogPost \<Rightarrow> autosave \<Rightarrow> autosave" where
  "saveToLocalStorage d s =
     (if draftWritable s then s\<lparr>draftWrites := draftWrites s @ [(draftKey d, d, clock s)]\<rparr>
      else s)"

text \<open>\<open>executeAutoSave\<close> up to \<open>await onSave(data)\<close>, where \<open>onSave\<close> has been called.\<close>

definition executeAutoSave :: "BlogPost \<Rightarrow> nat \<Rightarrow> autosave \<Rightarrow> autosave" where
  "executeAutoSave d n s =
     (if isSavingRef s then s\<lparr>pendingDataRef := Some d\<rparr>
      else if \<not> isOnlineRef s then saveToLocalStorage d (s\<lparr>pendingDataRef := Some d\<rparr>)
      else
        (let s1 = s\<lparr>isSavingRef := True, isSaving := True, retryCountRef := n - 1\<rparr>;
             s2 = saveToLocalStorage d s1
         in s2\<lparr>onSaveCalls := onSaveCalls s2 @ [(clock s2, d)],
               awaiting := awaiting s2 @ [\<lparr>callData = d, attemptNumber = n\<rparr>]\<rparr>))"

text \<open>The rest of the \<open>try\<close> block once the promise is fulfilled, then \<open>finally\<close>.\<close>

definition saveFulfilled :: "autosave \<Rightarrow> autosave" where
  "saveFulfilled s =
     (let s1 = s\<lparr>lastSavedAt := Some (clock s), error := None, pendingDataRef := None,
                 retryCountRef := 0\<rparr>
      in s1\<lparr>isSavingRef := False, isSaving := False\<rparr>)"

text \<open>\<^verbatim>\<open>err instanceof Error ? err : new Error('Auto-save failed')\<close>, as the message.\<close>

definition toError :: "rejection \<Rightarrow> jsstring" where
  "toError r = (case r of ErrorObject m \<Rightarrow> m | OtherValue \<Rightarrow> lit ''Auto-save failed'')"

text \<open>
  The \<open>catch\<close> block once the promise is rejected, then \<open>finally\<close>. Attempt numbers
  are at least 1 (the parameter defaults to 1 and a retry adds 1), so that the exponent
  \<open>attemptNumber - 1\<close> is a natural number.
\<close>

definition saveRejected :: "UseAutoSaveOptions \<Rightarrow> saveCall \<Rightarrow> rejection \<Rightarrow> autosave \<Rightarrow> autosave" where
  "saveRejected opts c r s =
     (let s1 = s\<lparr>error := Some (toError r)\<rparr>;
          s2 = (if attemptNumber c < maxRetries opts
                then snd (setTimeout (RetryCallback (attemptNumber c + 1))
                            (retryDelay opts * 2 ^ (attemptNumber c - 1)) s1)
                else s1)
      in s2\<lparr>isSavingRef := False, isSaving := False\<rparr>)"

text \<open>
  \<^verbatim>\<open>if (debounceTimerRef.current) { clearTimeout(debounceTimerRef.current); }\<close>: the
  reference is truthy when it holds a timer id other than 0.
\<close>

definition clearDebounceTimer :: "autosave \<Rightarrow> autosave" where
  "clearDebounceTimer s =
     (case debounceTimerRef s of
        Some i \<Rightarrow> if i = 0 then s else clearTimeout i s
      | None \<Rightarrow> s)"

definition autoSave :: "UseAutoSaveOptions \<Rightarrow> BlogPost \<Rightarrow> autosave \<Rightarrow> autosave" where
  "autoSave opts d s =
     (let s1 = s\<lparr>pendingDataRef := Some d\<rparr>;
          s2 = clearDebounceTimer s1;
          (i, s3) = setTimeout DebounceCallback (debounceDelay opts) s2
      in s3\<lparr>debounceTimerRef := Some i\<rparr>)"

definition runCallback :: "timerCallback \<Rightarrow> autosave \<Rightarrow> autosave" where
  "runCallback cb s =
     (case pendingDataRef s of
        None \<Rightarrow> s
      | Some d \<Rightarrow> (case cb of DebounceCallback \<Rightarrow> executeAutoSave d 1 s
                   | RetryCallback n \<Rightarrow> executeAutoSave d n s))"

definition handleOnline :: "autosave \<Rightarrow> autosave" where
  "handleOnline s =
     (let s1 = s\<lparr>isOnlineRef := True\<rparr>
      in case pendingDataRef s1 of Some d \<Rightarrow> executeAutoSave d 1 s1 | None \<Rightarrow> s1)"

definition handleOffline :: "autosave \<Rightarrow> autosave" where
  "handleOffline s = s\<lparr>isOnlineRef := False\<rparr>"

definition handleBeforeUnload :: "autosave \<Rightarrow> autosave" where
  "handleBeforeUnload s =
     (case pendingDataRef s of
        Some d \<Rightarrow>
          (if isSavingRef s then saveToLocalStorage d (clearDebounceTimer s) else s)
      | None \<Rightarrow> s)"

text \<open>The cleanups of the effects: the debounce timer is cleared, the listeners removed.\<close>

definition unmount :: "autosave \<Rightarrow> autosave" where
  "unmount s = (clearDebounceTimer s)\<lparr>listening := False\<rparr>"

text \<open>
  What can happen to the hook. \<open>SaveResolved k\<close> and \<open>SaveRejected k r\<close> settle the
  promise of the \<open>k\<close>-th unsettled call of \<open>onSave\<close>.
\<close>

datatype event =
  AutoSave BlogPost | SaveResolved nat | SaveRejected nat rejection
  | Online | Offline | BeforeUnload | Unmount | ClearError

definition handle :: "UseAutoSaveOptions \<Rightarrow> event \<Rightarrow> autosave \<Rightarrow> autosave" where
  "handle opts ev s =
     (case ev of
        AutoSave d \<Rightarrow> autoSave opts d s
      | SaveResolved k \<Rightarrow>
          (if k < length (awaiting s)
           then saveFulfilled (s\<lparr>awaiting := take k (awaiting s) @ drop (Suc k) (awaiting s)\<rparr>)
           else s)
      | SaveRejected k r \<Rightarrow>
          (if k < length (awaiting s)
           then saveRejected opts (awaiting s ! k) r
                  (s\<lparr>awaiting := take k (awaiting s) @ drop (Suc k) (awaiting s)\<rparr>)
           else s)
      | Online \<Rightarrow> (if listening s then handleOnline s else s)
      | Offline \<Rightarrow> (if listening s then handleOffline s else s)
      | BeforeUnload \<Rightarrow> (if listening s then handleBeforeUnload s else s)
      | Unmount \<Rightarrow> unmount s
      | ClearError \<Rightarrow> s\<lparr>error := None\<rparr>)"

text \<open>The timer to fire next among those due by \<open>t\<close>: the earliest, the oldest of equals.\<close>

fun earliest :: "timer \<Rightarrow> timer list \<Rightarrow> timer" where
  "earliest m [] = m"
| "earliest m (x # xs) = earliest (if dueAt x < dueAt m then x else m) xs"

definition nextDue :: "nat \<Rightarrow> timer list \<Rightarrow> timer option" where
  "nextDue t ts = (case filter (\<lambda>x. dueAt x \<le> t) ts of [] \<Rightarrow> None | x # xs \<Rightarrow> Some (earliest x xs))"

text \<open>Time passes until \<open>t\<close>: the timers due by then fire in order, each at its due time.\<close>

function advance :: "nat \<Rightarrow> autosave \<Rightarrow> autosave" where
  "advance t s =
     (case nextDue t (timers s) of
        None \<Rightarrow> s\<lparr>clock := max (clock s) t\<rparr>
      | Some x \<Rightarrow>
          advance t (runCallback (callback x)
            (s\<lparr>timers := filter (\<lambda>y. timerId y \<noteq> timerId x) (timers s),
               clock := max (clock s) (dueAt x)\<rparr>)))"
  by pat_completeness auto
termination
proof (relation "measure (\<lambda>(t, s). length (timers s))")
  show "wf (measure (\<lambda>(t, s). length (timers s)))" by simp
next
  fix t :: nat and s :: autosave and x :: timer
  assume due: "nextDue t (timers s) = Some x"
  have mem: "earliest m ys \<in> set (m # ys)" for m ys
    by (induction ys arbitrary: m) auto
  from due obtain y ys where f: "filter (\<lambda>x. dueAt x \<le> t) (timers s) = y # ys"
    and x: "x = earliest y ys"
    by (auto simp: nextDue_def split: list.splits)
  from mem[of y ys] x f have "x \<in> set (filter (\<lambda>x. dueAt x \<le> t) (timers s))" by simp
  then have "x \<in> set (timers s)" by simp
  then have less: "length (filter (\<lambda>y. timerId y \<noteq> timerId x) (timers s)) < length (timers s)"
    by (simp add: length_filter_less)
  have keep: "timers (runCallback cb u) = timers u" for cb u
    by (simp add: runCallback_def executeAutoSave_def saveToLocalStorage_def Let_def
          split: option.splits timerCallback.splits)
  show "((t, runCallback (callback x)
            (s\<lparr>timers := filter (\<lambda>y. timerId y \<noteq> timerId x) (timers s),
               clock := max (clock s) (dueAt x)\<rparr>)), (t, s))
        \<in> measure (\<lambda>(t, s). length (timers s))"
    using less by (simp add: keep)
qed

text \<open>A timed event: time passes until its time, then it happens.\<close>

definition step :: "UseAutoSaveOptions \<Rightarrow> nat \<times> event \<Rightarrow> autosave \<Rightarrow> autosave" where
  "step opts te s = handle opts (snd te) (advance (fst te) s)"

definition run :: "UseAutoSaveOptions \<Rightarrow> (nat \<times> event) list \<Rightarrow> autosave \<Rightarrow> autosave" where
  "run opts evs s = foldl (\<lambda>s te. step opts te s) s evs"


text \<open>
  Calls of \<open>autoSave\<close> in one debounce window: each call comes no earlier than the one
  before it and before the delay of the one before it has run out. \<open>t\<close> is the time of
  the call before the first of the list.
\<close>

fun windowed :: "nat \<Rightarrow> nat \<Rightarrow> (nat \<times> BlogPost) list \<Rightarrow> bool" where
  "windowed delay t [] \<longleftrightarrow> True"
| "windowed delay t (c # cs) \<longleftrightarrow> t \<le> fst c \<and> fst c < t + delay \<and> windowed delay (fst c) cs"

definition autoSaveEvents :: "(nat \<times> BlogPost) list \<Rightarrow> (nat \<times> event) list" where
  "autoSaveEvents cs = map (\<lambda>c. (fst c, AutoSave (snd c))) cs"

fun isAutoSave :: "event \<Rightarrow> bool" where
  "isAutoSave (AutoSave d) \<longleftrightarrow> True"
| "isAutoSave e \<longleftrightarrow> False"

subsection \<open>The phases of the controller\<close>

text \<open>
  The hook is online and at rest: no timer is set and no call of \<open>onSave\<close> is in flight
  (and the next timer id is positive, as every timer id is).
\<close>

definition idle :: "autosave \<Rightarrow> bool" where
  "idle s \<longleftrightarrow>
     timers s = [] \<and> awaiting s = [] \<and> \<not> isSavingRef s \<and> isOnlineRef s \<and> 0 < nextTimerId s"

text \<open>
  The debounce window is open: the one timer is the debounce timer, due at \<open>due\<close>, and
  \<open>d\<close> is the pending payload; no call of \<open>onSave\<close> is in flight.
\<close>

definition debouncing :: "autosave \<Rightarrow> nat \<Rightarrow> BlogPost \<Rightarrow> bool" where
  "debouncing s due d \<longleftrightarrow>
     (\<exists>i. timers s = [\<lparr>timerId = i, dueAt = due, callback = DebounceCallback\<rparr>] \<and>
          debounceTimerRef s = Some i \<and> 0 < i) \<and>
     pendingDataRef s = Some d \<and> \<not> isSavingRef s \<and> isOnlineRef s \<and> awaiting s = [] \<and>
     clock s \<le> due \<and> 0 < nextTimerId s"

text \<open>Attempt \<open>n\<close> with payload \<open>d\<close> is in flight and no timer is set.\<close>

definition saving :: "autosave \<Rightarrow> BlogPost \<Rightarrow> nat \<Rightarrow> bool" where
  "saving s d n \<longleftrightarrow>
     awaiting s = [\<lparr>callData = d, attemptNumber = n\<rparr>] \<and> isSavingRef s \<and> isOnlineRef s \<and>
     timers s = [] \<and> pendingDataRef s = Some d"

text \<open>An attempt has failed: the one timer is the retry timer for attempt \<open>n\<close>, due at \<open>due\<close>.\<close>

definition retrying :: "autosave \<Rightarrow> nat \<Rightarrow> BlogPost \<Rightarrow> nat \<Rightarrow> bool" where
  "retrying s due d n \<longleftrightarrow>
     (\<exists>i. timers s = [\<lparr>timerId = i, dueAt = due, callback = RetryCallback n\<rparr>]) \<and>
     pendingDataRef s = Some d \<and> \<not> isSavingRef s \<and> isOnlineRef s \<and> awaiting s = [] \<and>
     clock s \<le> due"

text \<open>Nothing is pending: no timer, no call in flight, no payload.\<close>

definition settled :: "autosave \<Rightarrow> bool" where
  "settled s \<longleftrightarrow> timers s = [] \<and> awaiting s = [] \<and> pendingDataRef s = None \<and> \<not> isSavingRef s"

text \<open>
  Every payload in the state, given to \<open>onSave\<close> after its first \<open>k\<close> calls or waiting
  to be given, is \<open>d\<close>.
\<close>

definition onlyPayload :: "nat \<Rightarrow> BlogPost \<Rightarrow> autosave \<Rightarrow> bool" where
  "onlyPayload k d s \<longleftrightarrow>
     k \<le> length (onSaveCalls s) \<and> (\<forall>x \<in> set (drop k (onSaveCalls s)). snd x = d) \<and>
     (\<forall>c \<in> set (awaiting s). callData c = d) \<and>
     (pendingDataRef s = None \<or> pendingDataRef s = Some d)"

text \<open>At most one call of \<open>onSave\<close> is in flight, and \<open>isSavingRef\<close> is set exactly then.\<close>

definition oneInFlight :: "autosave \<Rightarrow> bool" where
  "oneInFlight s \<longleftrightarrow> length (awaiting s) \<le> 1 \<and> (isSavingRef s \<longleftrightarrow> awaiting s \<noteq> [])"

text \<open>
  Attempts are counted from 1: every call in flight and every retry timer holds an attempt
  number of at least 1.
\<close>

fun attemptOf :: "timerCallback \<Rightarrow> nat" where
  "attemptOf DebounceCallback = 1"
| "attemptOf (RetryCallback n) = n"

definition attemptsPositive :: "autosave \<Rightarrow> bool" where
  "attemptsPositive s \<longleftrightarrow>
     (\<forall>c \<in> set (awaiting s). 1 \<le> attemptNumber c) \<and>
     (\<forall>x \<in> set (timers s). 1 \<le> attemptOf (callback x))"

section \<open>Slug derivation\<close>

lemma noDouble_append:
  "noDoubleHyphen (xs @ ys) \<longleftrightarrow>
     noDoubleHyphen xs \<and> noDoubleHyphen ys \<and> \<not> (xs \<noteq> [] \<and> ys \<noteq> [] \<and> last xs = hyphen \<and> hd ys = hyphen)"
proof (induction xs rule: noDoubleHyphen.induct)
  case 1
  then show ?case by simp
next
  case (2 a)
  then show ?case by (cases ys) auto
next
  case (3 a b r)
  then show ?case by auto
qed

lemma noDouble_rev: "noDoubleHyphen (rev s) = noDoubleHyphen s"
proof (induction s)
  case Nil then show ?case by simp
next
  case (Cons a s)
  have "noDoubleHyphen (a # s) \<longleftrightarrow> noDoubleHyphen s \<and> \<not> (s \<noteq> [] \<and> a = hyphen \<and> hd s = hyphen)"
    by (cases s) auto
  with Cons show ?case by (auto simp: noDouble_append last_rev)
qed

lemma noDouble_dropWhile: "noDoubleHyphen s \<Longrightarrow> noDoubleHyphen (dropWhile P s)"
proof -
  assume a: "noDoubleHyphen s"
  have "s = takeWhile P s @ dropWhile P s" by simp
  with a have "noDoubleHyphen (takeWhile P s @ dropWhile P s)" by simp
  then show ?thesis unfolding noDouble_append by blast
qed

lemma noDouble_collapse: "noDoubleHyphen (collapseRuns isHyphen s)"
proof (induction isHyphen s rule: collapseRuns.induct)
  case 1 then show ?case by simp
next
  case (2 u us)
  show ?case
  proof (cases "isHyphen u")
    case True
    have hd: "dropWhile isHyphen us \<noteq> [] \<Longrightarrow> \<not> isHyphen (hd (dropWhile isHyphen us))"
      by (simp add: hd_dropWhile)
    from True 2 have ih: "noDoubleHyphen (collapseRuns isHyphen (dropWhile isHyphen us))" by simp
    show ?thesis
    proof (cases "dropWhile isHyphen us")
      case Nil with True show ?thesis by (simp del: dropWhile_eq_Nil_conv)
    next
      case (Cons v vs)
      with hd have "\<not> isHyphen v" by simp
      with True ih Cons show ?thesis by (simp add: isHyphen_def)
    qed
  next
    case False
    with 2 have ih: "noDoubleHyphen (collapseRuns isHyphen us)" by simp
    with False show ?thesis by (cases "collapseRuns isHyphen us") (auto simp: isHyphen_def)
  qed
qed


lemma slugChar_ascii: "slugChar u \<Longrightarrow> u < 128 \<and> \<not> isUpper u \<and> \<not> isSpace u"
  unfolding slugChar_def isLowerWord_def isUpper_def isSpace_def hyphen_def
  by (auto simp: word_le_nat_alt word_less_nat_alt)

lemma isWord_not_space: "isWord u \<Longrightarrow> \<not> isSpace u"
  unfolding isWord_def isLowerWord_def isUpper_def isSpace_def
  by (auto simp: word_le_nat_alt word_less_nat_alt)

lemma set_collapse: "set (collapseRuns P s) \<subseteq> insert hyphen {u \<in> set s. \<not> P u}"
proof (induction P s rule: collapseRuns.induct)
  case (1 P) then show ?case by simp
next
  case (2 P u us)
  show ?case
  proof (cases "P u")
    case True
    with 2 have "set (collapseRuns P (dropWhile P us)) \<subseteq> insert hyphen {u \<in> set (dropWhile P us). \<not> P u}"
      by simp
    moreover have "set (dropWhile P us) \<subseteq> set us" by (rule set_dropWhileD[THEN subsetI]) 
    ultimately show ?thesis using True by auto
  next
    case False
    with 2 show ?thesis by auto
  qed
qed

lemma collapse_id: "\<forall>u \<in> set s. \<not> P u \<Longrightarrow> collapseRuns P s = s"
  by (induction s) auto

lemma collapse_hyphen_id: "noDoubleHyphen s \<Longrightarrow> collapseRuns isHyphen s = s"
proof (induction s rule: noDoubleHyphen.induct)
  case 1 then show ?case by simp
next
  case (2 a) then show ?case by (simp add: isHyphen_def)
next
  case (3 a b r)
  then show ?case by (auto simp: isHyphen_def)
qed

lemma strip_id: "s = [] \<or> (\<not> P (hd s) \<and> \<not> P (last s)) \<Longrightarrow> rev (dropWhile P (rev (dropWhile P s))) = s"
proof (cases "s = []")
  case True then show ?thesis by simp
next
  case False
  assume "s = [] \<or> (\<not> P (hd s) \<and> \<not> P (last s))"
  with False have h: "\<not> P (hd s)" and l: "\<not> P (last s)" by auto
  from h have d: "dropWhile P s = s" by (simp add: dropWhile_eq_self_iff)
  from l False have "dropWhile P (rev s) = rev s" by (simp add: dropWhile_eq_self_iff hd_rev)
  with d show ?thesis by simp
qed

lemma strip_edges:
  "let r = rev (dropWhile P (rev (dropWhile P s))) in r = [] \<or> (\<not> P (hd r) \<and> \<not> P (last r))"
proof -
  let ?d = "dropWhile P s"
  let ?e = "dropWhile P (rev ?d)"
  show ?thesis
  proof (cases "?e = []")
    case True then show ?thesis by simp
  next
    case False
    then have l: "\<not> P (hd ?e)" by (simp add: hd_dropWhile)
    have dn: "?d \<noteq> []"
    proof
      assume "?d = []"
      then have "?e = []" by (simp del: dropWhile_eq_Nil_conv)
      with False show False by simp
    qed
    then have hdd: "\<not> P (hd ?d)" by (simp add: hd_dropWhile)
    have "rev ?d = takeWhile P (rev ?d) @ ?e" by simp
    then have "?d = rev ?e @ rev (takeWhile P (rev ?d))" by (metis rev_append rev_rev_ident)
    with False have "hd ?d = hd (rev ?e)" by (metis hd_append2 rev_is_Nil_conv)
    with hdd l False show ?thesis by (simp add: last_rev Let_def)
  qed
qed


lemma set_strip: "set (rev (dropWhile P (rev (dropWhile P s)))) \<subseteq> set s"
proof -
  have "set (dropWhile P (rev (dropWhile P s))) \<subseteq> set (rev (dropWhile P s))"
    by (meson set_dropWhileD subsetI)
  moreover have "set (dropWhile P s) \<subseteq> set s" by (meson set_dropWhileD subsetI)
  ultimately show ?thesis by auto
qed

lemma slug_fixed:
  assumes lc: "lc s = s" and ch: "\<forall>u \<in> set s. slugChar u"
    and nd: "noDoubleHyphen s" and ne: "noEdgeHyphen s"
  shows "generateSlug lc s = s"
proof -
  have nsp: "\<forall>u \<in> set s. \<not> isSpace u" using ch slugChar_ascii by blast
  have edge_sp: "s = [] \<or> (\<not> isSpace (hd s) \<and> \<not> isSpace (last s))"
    using nsp by (cases s) auto
  have edge_hy: "s = [] \<or> (\<not> isHyphen (hd s) \<and> \<not> isHyphen (last s))"
    using ne by (cases s) (auto simp: noEdgeHyphen_def isHyphen_def)
  have t: "trim (lc s) = s" unfolding trim_def lc using edge_sp by (rule strip_id)
  have f: "filter (\<lambda>u. isWord u \<or> isSpace u \<or> isHyphen u) s = s"
    using ch by (auto simp: filter_id_conv slugChar_def isWord_def isHyphen_def)
  have c1: "collapseRuns isSpace s = s" using nsp by (rule collapse_id)
  have c2: "collapseRuns isHyphen s = s" using nd by (rule collapse_hyphen_id)
  have st: "rev (dropWhile isHyphen (rev (dropWhile isHyphen s))) = s"
    using edge_hy by (rule strip_id)
  show ?thesis unfolding generateSlug_def Let_def t f c1 c2 st ..
qed

lemma slug_chars:
  assumes up: "\<forall>u \<in> set (lc t). \<not> isUpper u"
  shows "\<forall>u \<in> set (generateSlug lc t). slugChar u"
proof -
  let ?s1 = "trim (lc t)"
  let ?s2 = "filter (\<lambda>u. isWord u \<or> isSpace u \<or> isHyphen u) ?s1"
  let ?s3 = "collapseRuns isSpace ?s2"
  let ?s4 = "collapseRuns isHyphen ?s3"
  have "set ?s1 \<subseteq> set (lc t)" unfolding trim_def by (rule set_strip)
  with up have s2: "\<forall>u \<in> set ?s2. (isWord u \<or> isSpace u \<or> isHyphen u) \<and> \<not> isUpper u" by auto
  have "set ?s3 \<subseteq> insert hyphen {u \<in> set ?s2. \<not> isSpace u}" by (rule set_collapse)
  with s2 have s3: "\<forall>u \<in> set ?s3. slugChar u"
    by (auto simp: slugChar_def isWord_def isHyphen_def)
  have "set ?s4 \<subseteq> insert hyphen {u \<in> set ?s3. \<not> isHyphen u}" by (rule set_collapse)
  with s3 have s4: "\<forall>u \<in> set ?s4. slugChar u" by (auto simp: slugChar_def)
  have "set (generateSlug lc t) \<subseteq> set ?s4"
    unfolding generateSlug_def Let_def by (rule set_strip)
  with s4 show ?thesis by blast
qed

lemma slug_noDouble: "noDoubleHyphen (generateSlug lc t)"
  unfolding generateSlug_def Let_def
  by (simp add: noDouble_rev noDouble_dropWhile noDouble_collapse)

lemma slug_noEdge: "noEdgeHyphen (generateSlug lc t)"
proof -
  let ?s4 = "collapseRuns isHyphen (collapseRuns isSpace
     (filter (\<lambda>u. isWord u \<or> isSpace u \<or> isHyphen u) (trim (lc t))))"
  have g: "generateSlug lc t = rev (dropWhile isHyphen (rev (dropWhile isHyphen ?s4)))"
    by (simp add: generateSlug_def Let_def)
  from strip_edges[of isHyphen ?s4]
  have "generateSlug lc t = [] \<or>
        (\<not> isHyphen (hd (generateSlug lc t)) \<and> \<not> isHyphen (last (generateSlug lc t)))"
    unfolding g Let_def .
  then show ?thesis by (cases "generateSlug lc t") (auto simp: noEdgeHyphen_def isHyphen_def)
qed

text \<open>
  Claim C10. Slug derivation is idempotent and its result is in normal shape: for every
  title \<open>t\<close>, deriving the slug of a slug gives the same slug, and a slug has no white
  space and no upper-case letter (each of its code units is one of \<open>a\<close>..\<open>z\<close>,
  \<open>0\<close>..\<open>9\<close>, \<open>_\<close> and \<open>-\<close>), no two adjacent hyphens, and no hyphen at its start or
  end. \<open>lc\<close> is the platform's \<open>toLowerCase\<close>.
\<close>

theorem generateSlug_idempotent_normal:
  assumes "lowerCasing lc"
  shows "generateSlug lc (generateSlug lc t) = generateSlug lc t \<and>
         (\<forall>u \<in> set (generateSlug lc t). slugChar u \<and> \<not> isSpace u \<and> \<not> isUpper u) \<and>
         noDoubleHyphen (generateSlug lc t) \<and> noEdgeHyphen (generateSlug lc t)"
proof -
  from assms have up: "\<forall>u \<in> set (lc t). \<not> isUpper u" by (simp add: lowerCasing_def)
  have ch: "\<forall>u \<in> set (generateSlug lc t). slugChar u" using up by (rule slug_chars)
  then have asc: "\<forall>u \<in> set (generateSlug lc t). u < 128 \<and> \<not> isUpper u"
    using slugChar_ascii by blast
  with assms have lc: "lc (generateSlug lc t) = generateSlug lc t"
    unfolding lowerCasing_def by blast
  have "generateSlug lc (generateSlug lc t) = generateSlug lc t"
    using lc ch slug_noDouble slug_noEdge by (rule slug_fixed)
  moreover have "\<forall>u \<in> set (generateSlug lc t). slugChar u \<and> \<not> isSpace u \<and> \<not> isUpper u"
    using ch slugChar_ascii by blast
  ultimately show ?thesis using slug_noDouble slug_noEdge by blast
qed

lemma lowered_not_upper: "\<not> isUpper (if isUpper v then v + 32 else v)"
proof (cases "isUpper v")
  case True
  then have "65 \<le> unat v" "unat v \<le> 90" by (simp_all add: isUpper_def word_le_nat_alt)
  then have "unat (v + 32) = unat v + 32" by (simp add: unat_word_ariths)
  with \<open>65 \<le> unat v\<close> show ?thesis by (simp add: isUpper_def word_le_nat_alt)
next
  case False then show ?thesis by simp
qed

lemma lowerCasing_asciiLower: "lowerCasing asciiLower"
  unfolding lowerCasing_def asciiLower_def
proof (intro conjI allI ballI impI)
  fix s u assume "u \<in> set (map (\<lambda>u. if isUpper u then u + 32 else u) s)"
  then have "\<exists>v. u = (if isUpper v then v + 32 else v)" by (auto simp del: if_split)
  then show "\<not> isUpper u" using lowered_not_upper by blast
next
  fix s :: jsstring assume "\<forall>u\<in>set s. u < 128 \<and> \<not> isUpper u"
  then show "map (\<lambda>u. if isUpper u then u + 32 else u) s = s"
    by (induction s) auto
qed

theorem generateSlug_idempotent_normal_witness:
  "lowerCasing asciiLower \<and>
   generateSlug asciiLower (lit ''  Hello,  World -- 2024! '') = lit ''hello-world-2024'' \<and>
   generateSlug asciiLower (generateSlug asciiLower (lit ''  Hello,  World -- 2024! ''))
     = lit ''hello-world-2024'' \<and>
   noDoubleHyphen (lit ''hello-world-2024'') \<and> noEdgeHyphen (lit ''hello-world-2024'')"
proof -
  have ev: "generateSlug asciiLower (lit ''  Hello,  World -- 2024! '') = lit ''hello-world-2024''"
    by (simp add: generateSlug_def lit_def asciiLower_def trim_def isSpace_def isUpper_def
          isWord_def isLowerWord_def isHyphen_def hyphen_def)
  from generateSlug_idempotent_normal[OF lowerCasing_asciiLower, of "lit ''  Hello,  World -- 2024! ''"]
  show ?thesis using lowerCasing_asciiLower by (simp add: ev)
qed

section \<open>Capacity\<close>

text \<open>
  Claim C1. Every write operation of the record store rejects a write whose resulting
  collection is larger than the capacity (5 MiB of JSON text) and leaves the store as it
  was: \<open>createPost\<close> throws the capacity error, \<open>updatePost\<close> and \<open>duplicatePost\<close>
  return \<open>null\<close>, \<open>importPostsFromJson\<close> returns a failure result with count 0; in each
  case the store after the call is the store before it.
\<close>

theorem capacity_exceeded_rejects_write:
  "(MAX_STORAGE_SIZE < getObjectSize pf (getAllPosts st @ [newPost pf r input]) \<longrightarrow>
      createPost pf r input st =
        (Inl (LimitExceeded (getObjectSize pf (getAllPosts st @ [newPost pf r input]))), st)) \<and>
   (\<forall>k. findIndex (\<lambda>p. post_id p = i) (getAllPosts st) = Some k \<longrightarrow>
      MAX_STORAGE_SIZE <
        getObjectSize pf ((getAllPosts st)[k := updatedPost (getAllPosts st ! k) updates now]) \<longrightarrow>
      updatePost pf now i updates st = (None, st)) \<and>
   (\<forall>post. getPostById st i = Some post \<longrightarrow>
      MAX_STORAGE_SIZE < getObjectSize pf (getAllPosts st @ [duplicatedPost r post]) \<longrightarrow>
      duplicatePost pf r i st = (None, st)) \<and>
   (MAX_STORAGE_SIZE < getObjectSize pf (fst (mergeImported (getAllPosts st) 0 imported)) \<longrightarrow>
      importPostsFromJson pf (ArrayOf imported) st =
        (\<lparr>success = False, count = 0,
          import_error = Some (ImportLimitExceeded
            (getObjectSize pf (fst (mergeImported (getAllPosts st) 0 imported))))\<rparr>, st))"
proof (intro conjI allI impI)
  assume "MAX_STORAGE_SIZE < getObjectSize pf (getAllPosts st @ [newPost pf r input])"
  then show "createPost pf r input st =
        (Inl (LimitExceeded (getObjectSize pf (getAllPosts st @ [newPost pf r input]))), st)"
    by (simp add: createPost_def Let_def)
next
  fix k
  assume "findIndex (\<lambda>p. post_id p = i) (getAllPosts st) = Some k"
    and "MAX_STORAGE_SIZE <
        getObjectSize pf ((getAllPosts st)[k := updatedPost (getAllPosts st ! k) updates now])"
  then show "updatePost pf now i updates st = (None, st)"
    by (simp add: updatePost_def Let_def)
next
  fix post
  assume "getPostById st i = Some post"
    and "MAX_STORAGE_SIZE < getObjectSize pf (getAllPosts st @ [duplicatedPost r post])"
  then show "duplicatePost pf r i st = (None, st)"
    by (simp add: duplicatePost_def Let_def)
next
  assume "MAX_STORAGE_SIZE < getObjectSize pf (fst (mergeImported (getAllPosts st) 0 imported))"
  then show "importPostsFromJson pf (ArrayOf imported) st =
        (\<lparr>success = False, count = 0,
          import_error = Some (ImportLimitExceeded
            (getObjectSize pf (fst (mergeImported (getAllPosts st) 0 imported))))\<rparr>, st)"
    by (cases "mergeImported (getAllPosts st) 0 imported") (simp add: importPostsFromJson_def Let_def)
qed


lemma size_sample: "getObjectSize samplePlatform ps = sum_list (map (\<lambda>p. length (title p)) ps)"
  by (simp add: getObjectSize_def samplePlatform_def)

theorem capacity_exceeded_rejects_write_witness:
  "createPost samplePlatform sampleReadings
       \<lparr>in_title = replicate 3000000 97, authorName = lit ''Ann'', authorEmail = lit ''ann@example.org''\<rparr>
       (Some (ArrayOf [samplePost (lit ''a'') (replicate 3000000 97)]))
     = (Inl (LimitExceeded 6000000), Some (ArrayOf [samplePost (lit ''a'') (replicate 3000000 97)])) \<and>
   updatePost samplePlatform (lit ''2024-06-01T12:00:00.000Z'') (lit ''a'')
       (noUpdates\<lparr>upd_title := Some (replicate 6000000 97)\<rparr>)
       (Some (ArrayOf [samplePost (lit ''a'') (replicate 3000000 97)]))
     = (None, Some (ArrayOf [samplePost (lit ''a'') (replicate 3000000 97)])) \<and>
   duplicatePost samplePlatform sampleReadings (lit ''a'')
       (Some (ArrayOf [samplePost (lit ''a'') (replicate 3000000 97)]))
     = (None, Some (ArrayOf [samplePost (lit ''a'') (replicate 3000000 97)])) \<and>
   importPostsFromJson samplePlatform (ArrayOf [samplePost (lit ''b'') (replicate 3000000 97)])
       (Some (ArrayOf [samplePost (lit ''a'') (replicate 3000000 97)]))
     = (\<lparr>success = False, count = 0, import_error = Some (ImportLimitExceeded 6000000)\<rparr>,
        Some (ArrayOf [samplePost (lit ''a'') (replicate 3000000 97)]))"
proof -
  let ?st = "Some (ArrayOf [samplePost (lit ''a'') (replicate 3000000 97)])"
  let ?inp = "\<lparr>in_title = replicate 3000000 97, authorName = lit ''Ann'', authorEmail = lit ''ann@example.org''\<rparr>"
  let ?upd = "noUpdates\<lparr>upd_title := Some (replicate 6000000 97)\<rparr>"
  let ?now = "lit ''2024-06-01T12:00:00.000Z''"
  let ?imp = "[samplePost (lit ''b'') (replicate 3000000 97)]"
  have g: "getAllPosts ?st = [samplePost (lit ''a'') (replicate 3000000 97)]"
    by (simp add: getAllPosts_def)
  have t: "title (samplePost x y) = y" "post_id (samplePost x y) = x" for x y
    by (simp_all add: samplePost_def)
  have ab: "lit ''b'' \<noteq> lit ''a''" "lit ''a'' \<noteq> lit ''b''" by (simp_all add: lit_def)
  have c: "getObjectSize samplePlatform (getAllPosts ?st @ [newPost samplePlatform sampleReadings ?inp]) = 6000000"
    by (simp add: g size_sample t newPost_def)
  have u: "getObjectSize samplePlatform ((getAllPosts ?st)[0 := updatedPost (getAllPosts ?st ! 0) ?upd ?now]) = 6000000"
    by (simp add: g size_sample t updatedPost_def mergeUpdates_def recalculateMetadata_def noUpdates_def)
  have fi: "findIndex (\<lambda>p. post_id p = lit ''a'') (getAllPosts ?st) = Some 0"
    by (simp add: g t)
  have gp: "getPostById ?st (lit ''a'') = Some (samplePost (lit ''a'') (replicate 3000000 97))"
    by (simp add: getPostById_def g t)
  have d: "getObjectSize samplePlatform (getAllPosts ?st @ [duplicatedPost sampleReadings (samplePost (lit ''a'') (replicate 3000000 97))]) = 6000000"
    by (simp add: g size_sample t duplicatedPost_def)
  have m: "getObjectSize samplePlatform (fst (mergeImported (getAllPosts ?st) 0 ?imp)) = 6000000"
    by (simp add: g size_sample t ab)
  note T = capacity_exceeded_rejects_write[of samplePlatform ?st sampleReadings ?inp "lit ''a''" ?upd ?now ?imp]
  have c': "MAX_STORAGE_SIZE < getObjectSize samplePlatform (getAllPosts ?st @ [newPost samplePlatform sampleReadings ?inp])"
    by (simp only: c MAX_STORAGE_SIZE_def)
  have u': "MAX_STORAGE_SIZE < getObjectSize samplePlatform ((getAllPosts ?st)[0 := updatedPost (getAllPosts ?st ! 0) ?upd ?now])"
    by (simp only: u MAX_STORAGE_SIZE_def)
  have d': "MAX_STORAGE_SIZE < getObjectSize samplePlatform (getAllPosts ?st @ [duplicatedPost sampleReadings (samplePost (lit ''a'') (replicate 3000000 97))])"
    by (simp only: d MAX_STORAGE_SIZE_def)
  have m': "MAX_STORAGE_SIZE < getObjectSize samplePlatform (fst (mergeImported (getAllPosts ?st) 0 ?imp))"
    by (simp only: m MAX_STORAGE_SIZE_def)
  from T c' have "createPost samplePlatform sampleReadings ?inp ?st =
      (Inl (LimitExceeded (getObjectSize samplePlatform (getAllPosts ?st @ [newPost samplePlatform sampleReadings ?inp]))), ?st)"
    by blast
  then have r1: "createPost samplePlatform sampleReadings ?inp ?st = (Inl (LimitExceeded 6000000), ?st)"
    by (simp only: c)
  from T fi u' have r2: "updatePost samplePlatform ?now (lit ''a'') ?upd ?st = (None, ?st)"
    by blast
  from T gp d' have r3: "duplicatePost samplePlatform sampleReadings (lit ''a'') ?st = (None, ?st)"
    by blast
  from T m' have "importPostsFromJson samplePlatform (ArrayOf ?imp) ?st =
        (\<lparr>success = False, count = 0,
          import_error = Some (ImportLimitExceeded
            (getObjectSize samplePlatform (fst (mergeImported (getAllPosts ?st) 0 ?imp))))\<rparr>, ?st)"
    by blast
  then have r4: "importPostsFromJson samplePlatform (ArrayOf ?imp) ?st =
        (\<lparr>success = False, count = 0, import_error = Some (ImportLimitExceeded 6000000)\<rparr>, ?st)"
    by (simp only: m)
  from r1 r2 r3 r4 show ?thesis by blast
qed

section \<open>The record store\<close>

lemma findIndex_None: "findIndex P xs = None \<longleftrightarrow> (\<forall>x \<in> set xs. \<not> P x)"
  by (induction xs) auto

lemma findIndex_Some:
  "findIndex P xs = Some k \<Longrightarrow> k < length xs \<and> P (xs ! k) \<and> find P xs = Some (xs ! k)"
proof (induction xs arbitrary: k)
  case Nil then show ?case by simp
next
  case (Cons x xs)
  show ?case
  proof (cases "P x")
    case True with Cons.prems show ?thesis by simp
  next
    case False
    with Cons.prems obtain j where j: "findIndex P xs = Some j" "k = Suc j" by auto
    from Cons.IH[OF j(1)] j(2) False show ?thesis by simp
  qed
qed

lemma find_update_first:
  "findIndex P xs = Some k \<Longrightarrow> P y \<Longrightarrow> find P (xs[k := y]) = Some y"
proof (induction xs arbitrary: k)
  case Nil then show ?case by simp
next
  case (Cons x xs)
  show ?case
  proof (cases "P x")
    case True with Cons.prems show ?thesis by simp
  next
    case False
    with Cons.prems obtain j where j: "findIndex P xs = Some j" "k = Suc j" by auto
    from Cons.IH[OF j(1) Cons.prems(2)] j(2) False show ?thesis by simp
  qed
qed

lemma getAllPosts_ArrayOf: "getAllPosts (Some (ArrayOf ps)) = ps"
  by (simp add: getAllPosts_def)

lemma updatedPost_id: "post_id (updatedPost p u now) = post_id p"
  by (simp add: updatedPost_def recalculateMetadata_def mergeUpdates_def Let_def split: option.splits)

lemma updatePost_commits:
  assumes "findIndex (\<lambda>q. post_id q = i) (getAllPosts st) = Some k"
    and "getObjectSize pf ((getAllPosts st)[k := updatedPost (getAllPosts st ! k) u now]) \<le> MAX_STORAGE_SIZE"
    and "setItemOk pf ((getAllPosts st)[k := updatedPost (getAllPosts st ! k) u now])"
  shows "updatePost pf now i u st =
           (Some (updatedPost (getAllPosts st ! k) u now),
            Some (ArrayOf ((getAllPosts st)[k := updatedPost (getAllPosts st ! k) u now])))"
  using assms by (simp add: updatePost_def Let_def setItem_def)

lemma updated_is_stored:
  assumes "findIndex (\<lambda>q. post_id q = i) (getAllPosts st) = Some k"
  shows "getPostById (Some (ArrayOf ((getAllPosts st)[k := updatedPost (getAllPosts st ! k) u now]))) i
           = Some (updatedPost (getAllPosts st ! k) u now)"
proof -
  from findIndex_Some[OF assms] have "post_id (getAllPosts st ! k) = i" by simp
  then have "post_id (updatedPost (getAllPosts st ! k) u now) = i" by (simp add: updatedPost_id)
  with find_update_first[OF assms] show ?thesis
    by (simp add: getPostById_def getAllPosts_ArrayOf)
qed

text \<open>
  Claim C2 (the code differs). \<open>deletePost\<close> returns \<open>true\<close> when it removes a record, and
  \<open>false\<close>, not \<open>true\<close>, when no record has the identifier: of two calls in a row with the
  same identifier the second returns \<open>false\<close>.
\<close>

theorem deletePost_missing_returns_false:
  "deletePost samplePlatform (lit ''1'') (Some (ArrayOf [samplePost (lit ''1'') (lit ''Test Post'')]))
     = (True, Some (ArrayOf [])) \<and>
   deletePost samplePlatform (lit ''1'') (Some (ArrayOf [])) = (False, Some (ArrayOf [])) \<and>
   deletePost samplePlatform (lit ''non-existent-id'') None = (False, None)"
  by (simp add: deletePost_def getAllPosts_def setItem_def samplePlatform_def samplePost_def Let_def)

lemma mergeImported_fresh:
  "distinct (map post_id ps) \<Longrightarrow> set (map post_id ps) \<inter> set (map post_id acc) = {} \<Longrightarrow>
   mergeImported acc n ps = (acc @ ps, n + length ps)"
proof (induction ps arbitrary: acc n)
  case Nil then show ?case by simp
next
  case (Cons p ps)
  from Cons.prems have "post_id p \<notin> post_id ` set acc" by auto
  have "\<forall>x \<in> set acc. post_id x \<noteq> post_id p"
  proof
    fix x assume "x \<in> set acc"
    then have "post_id x \<in> post_id ` set acc" by (rule imageI)
    with \<open>post_id p \<notin> post_id ` set acc\<close> show "post_id x \<noteq> post_id p" by auto
  qed
  then have fresh: "findIndex (\<lambda>q. post_id q = post_id p) acc = None"
    by (simp add: findIndex_None)
  from Cons.prems have "distinct (map post_id ps)"
    and "set (map post_id ps) \<inter> set (map post_id (acc @ [p])) = {}" by auto
  from Cons.IH[OF this] fresh show ?case by simp
qed

text \<open>
  Claim C6. Round trip: when the stored records have pairwise distinct identifiers, their
  collection is within the capacity and the storage takes the write, importing the text
  given by \<open>exportPostsAsJson\<close> into an empty store succeeds, reports as count the number
  of records, and the store then holds the original records, equal in every field and in
  the same order.
\<close>

theorem export_import_roundtrip:
  assumes "distinct (map post_id (getAllPosts st))"
    and "getObjectSize pf (getAllPosts st) \<le> MAX_STORAGE_SIZE"
    and "setItemOk pf (getAllPosts st)"
    and "getAllPosts emptyStore = []"
  shows "importPostsFromJson pf (exportPostsAsJson st) emptyStore =
           (\<lparr>success = True, count = length (getAllPosts st), import_error = None\<rparr>,
            Some (ArrayOf (getAllPosts st))) \<and>
         getAllPosts (Some (ArrayOf (getAllPosts st))) = getAllPosts st"
proof -
  have "mergeImported [] 0 (getAllPosts st) = ([] @ getAllPosts st, 0 + length (getAllPosts st))"
    using assms(1) by (intro mergeImported_fresh) simp_all
  then have m: "mergeImported (getAllPosts emptyStore) 0 (getAllPosts st) = (getAllPosts st, length (getAllPosts st))"
    by (simp add: assms(4))
  show ?thesis
    using assms(2,3)
    by (simp add: importPostsFromJson_def exportPostsAsJson_def m setItem_def getAllPosts_ArrayOf)
qed

theorem export_import_roundtrip_witness:
  "distinct (map post_id [samplePost (lit ''a'') (lit ''First''), samplePost (lit ''b'') (lit ''Second'')]) \<and>
   importPostsFromJson samplePlatform
     (exportPostsAsJson (Some (ArrayOf [samplePost (lit ''a'') (lit ''First''), samplePost (lit ''b'') (lit ''Second'')])))
     None
   = (\<lparr>success = True, count = 2, import_error = None\<rparr>,
      Some (ArrayOf [samplePost (lit ''a'') (lit ''First''), samplePost (lit ''b'') (lit ''Second'')]))"
proof -
  let ?ps = "[samplePost (lit ''a'') (lit ''First''), samplePost (lit ''b'') (lit ''Second'')]"
  have g: "getAllPosts (Some (ArrayOf ?ps)) = ?ps" by (rule getAllPosts_ArrayOf)
  have d: "distinct (map post_id (getAllPosts (Some (ArrayOf ?ps))))"
    unfolding g by (simp add: samplePost_def lit_def)
  have s: "getObjectSize samplePlatform (getAllPosts (Some (ArrayOf ?ps))) \<le> MAX_STORAGE_SIZE"
    unfolding g by (simp add: getObjectSize_def samplePlatform_def samplePost_def lit_def MAX_STORAGE_SIZE_def)
  have k: "setItemOk samplePlatform (getAllPosts (Some (ArrayOf ?ps)))"
    by (simp add: samplePlatform_def)
  have e: "getAllPosts None = []" by (simp add: getAllPosts_def)
  from export_import_roundtrip[OF d s k e] d show ?thesis unfolding g by simp
qed

section \<open>Updates and derived metadata\<close>

lemma updatedPost_noUpdates: "updatedPost p noUpdates now = p\<lparr>updatedAt := now\<rparr>"
  by (simp add: updatedPost_def recalculateMetadata_def mergeUpdates_def noUpdates_def)

text \<open>
  Claim C7. For an identifier present in the store (\<open>k\<close> is the index \<open>findIndex\<close>
  gives, \<open>p\<close> the record stored there), the update with no field, when the collection
  with the refreshed record is within the capacity and the storage takes the write,
  returns and stores the record \<open>p\<close> with \<open>updatedAt\<close> set to the time of the call and
  every other field (identifier, \<open>createdAt\<close>, title, slug, status, content, metadata,
  tags and the rest) as it was; the other records of the store are not touched.
\<close>

theorem noop_update_refreshes_updatedAt_only:
  assumes "findIndex (\<lambda>q. post_id q = i) (getAllPosts st) = Some k"
    and "p = getAllPosts st ! k"
    and "posts' = (getAllPosts st)[k := p\<lparr>updatedAt := now\<rparr>]"
    and "getObjectSize pf posts' \<le> MAX_STORAGE_SIZE"
    and "setItemOk pf posts'"
  shows "getPostById st i = Some p \<and>
         updatePost pf now i noUpdates st = (Some (p\<lparr>updatedAt := now\<rparr>), Some (ArrayOf posts')) \<and>
         getPostById (Some (ArrayOf posts')) i = Some (p\<lparr>updatedAt := now\<rparr>) \<and>
         post_id (p\<lparr>updatedAt := now\<rparr>) = post_id p \<and>
         createdAt (p\<lparr>updatedAt := now\<rparr>) = createdAt p \<and>
         updatedAt (p\<lparr>updatedAt := now\<rparr>) = now"
proof -
  from findIndex_Some[OF assms(1)] assms(2) have a: "getPostById st i = Some p"
    by (simp add: getPostById_def)
  have b: "updatePost pf now i noUpdates st = (Some (p\<lparr>updatedAt := now\<rparr>), Some (ArrayOf posts'))"
    using updatePost_commits[of i st k pf noUpdates now] assms
    by (simp add: updatedPost_noUpdates)
  have c: "getPostById (Some (ArrayOf posts')) i = Some (p\<lparr>updatedAt := now\<rparr>)"
    using updated_is_stored[OF assms(1), of noUpdates now] assms(2,3)
    by (simp add: updatedPost_noUpdates)
  from a b c show ?thesis by simp
qed

theorem noop_update_refreshes_updatedAt_only_witness:
  "findIndex (\<lambda>q. post_id q = lit ''b'')
     (getAllPosts (Some (ArrayOf [samplePost (lit ''a'') (lit ''First''), samplePost (lit ''b'') (lit ''Second'')])))
     = Some 1 \<and>
   updatePost samplePlatform (lit ''2024-06-01T12:00:00.000Z'') (lit ''b'') noUpdates
     (Some (ArrayOf [samplePost (lit ''a'') (lit ''First''), samplePost (lit ''b'') (lit ''Second'')]))
   = (Some ((samplePost (lit ''b'') (lit ''Second''))\<lparr>updatedAt := lit ''2024-06-01T12:00:00.000Z''\<rparr>),
      Some (ArrayOf [samplePost (lit ''a'') (lit ''First''),
              (samplePost (lit ''b'') (lit ''Second''))\<lparr>updatedAt := lit ''2024-06-01T12:00:00.000Z''\<rparr>]))"
proof -
  let ?a = "samplePost (lit ''a'') (lit ''First'')"
  let ?b = "samplePost (lit ''b'') (lit ''Second'')"
  let ?now = "lit ''2024-06-01T12:00:00.000Z''"
  let ?st = "Some (ArrayOf [?a, ?b])"
  have g: "getAllPosts ?st = [?a, ?b]" by (rule getAllPosts_ArrayOf)
  have ids: "post_id ?a = lit ''a''" "post_id ?b = lit ''b''" by (simp_all add: samplePost_def)
  have ne: "lit ''a'' \<noteq> lit ''b''" by (simp add: lit_def)
  have f: "findIndex (\<lambda>q. post_id q = lit ''b'') (getAllPosts ?st) = Some 1"
    unfolding g by (simp add: ids ne)
  have p: "?b = getAllPosts ?st ! 1" unfolding g by simp
  have q: "[?a, ?b\<lparr>updatedAt := ?now\<rparr>] = (getAllPosts ?st)[1 := ?b\<lparr>updatedAt := ?now\<rparr>]"
    unfolding g by simp
  have s: "getObjectSize samplePlatform [?a, ?b\<lparr>updatedAt := ?now\<rparr>] \<le> MAX_STORAGE_SIZE"
    by (simp add: getObjectSize_def samplePlatform_def samplePost_def lit_def MAX_STORAGE_SIZE_def)
  have k: "setItemOk samplePlatform [?a, ?b\<lparr>updatedAt := ?now\<rparr>]"
    by (simp add: samplePlatform_def)
  from noop_update_refreshes_updatedAt_only[OF f p q s k] f show ?thesis by blast
qed

lemma updatedPost_metadata:
  "upd_content u = Some blocks \<Longrightarrow>
   wordCount (metadata (updatedPost p u now)) = countWords blocks \<and>
   readingTime (metadata (updatedPost p u now)) = calculateReadingTime (countWords blocks) \<and>
   excerpt (metadata (updatedPost p u now)) = extractExcerpt (title (mergeUpdates p u now)) blocks"
  by (simp add: updatedPost_def recalculateMetadata_def Let_def)

text \<open>
  Claim C8, as the code has it. On every call of \<open>updatePost\<close> that gives content (and is
  committed), the stored \<open>metadata.readingTime\<close> is the word count divided by 200 and
  rounded up, and at least 1 (so it is 1 when the word count is 0). A post made by
  \<open>createPost\<close> has the metadata set to zero: its reading time is 0, with word count 0.
\<close>

theorem readingTime_on_update:
  assumes "upd_content u = Some blocks"
    and "findIndex (\<lambda>q. post_id q = i) (getAllPosts st) = Some k"
    and "posts' = (getAllPosts st)[k := updatedPost (getAllPosts st ! k) u now]"
    and "getObjectSize pf posts' \<le> MAX_STORAGE_SIZE"
    and "setItemOk pf posts'"
  shows "\<exists>p'. updatePost pf now i u st = (Some p', Some (ArrayOf posts')) \<and>
              getPostById (Some (ArrayOf posts')) i = Some p' \<and>
              wordCount (metadata p') = countWords blocks \<and>
              int (readingTime (metadata p')) = max 1 \<lceil>real (wordCount (metadata p')) / 200\<rceil> \<and>
              1 \<le> readingTime (metadata p') \<and>
              readingTime (metadata (newPost pf r input)) = 0 \<and>
              wordCount (metadata (newPost pf r input)) = 0"
proof -
  let ?p = "updatedPost (getAllPosts st ! k) u now"
  have a: "updatePost pf now i u st = (Some ?p, Some (ArrayOf posts'))"
    using updatePost_commits[of i st k pf u now] assms by simp
  have b: "getPostById (Some (ArrayOf posts')) i = Some ?p"
    using updated_is_stored[OF assms(2), of u now] assms(3) by simp
  note m = updatedPost_metadata[OF assms(1), of "getAllPosts st ! k" now]
  have c: "int (readingTime (metadata ?p)) = max 1 \<lceil>real (wordCount (metadata ?p)) / 200\<rceil>"
    using m by (simp add: calculateReadingTime_def)
  have d: "1 \<le> readingTime (metadata ?p)" using m by (simp add: calculateReadingTime_def)
  have e: "readingTime (metadata (newPost pf r input)) = 0 \<and> wordCount (metadata (newPost pf r input)) = 0"
    by (simp add: newPost_def)
  from a b c d e m show ?thesis by blast
qed


text \<open>
  Claim C8 as stated fails at creation: the post that \<open>createPost\<close> returns and stores
  has word count 0 and reading time 0, which is not 0 / 200 rounded up with a minimum of 1.
\<close>

theorem createPost_readingTime_counterexample:
  "fst (createPost samplePlatform sampleReadings
         \<lparr>in_title = lit ''Hello World'', authorName = lit ''Ann'', authorEmail = lit ''ann@example.org''\<rparr> None)
     = Inr (newPost samplePlatform sampleReadings
         \<lparr>in_title = lit ''Hello World'', authorName = lit ''Ann'', authorEmail = lit ''ann@example.org''\<rparr>) \<and>
   getAllPosts (snd (createPost samplePlatform sampleReadings
         \<lparr>in_title = lit ''Hello World'', authorName = lit ''Ann'', authorEmail = lit ''ann@example.org''\<rparr> None))
     = [newPost samplePlatform sampleReadings
         \<lparr>in_title = lit ''Hello World'', authorName = lit ''Ann'', authorEmail = lit ''ann@example.org''\<rparr>] \<and>
   int (readingTime (metadata (newPost samplePlatform sampleReadings
         \<lparr>in_title = lit ''Hello World'', authorName = lit ''Ann'', authorEmail = lit ''ann@example.org''\<rparr>)))
     \<noteq> max 1 \<lceil>real (wordCount (metadata (newPost samplePlatform sampleReadings
         \<lparr>in_title = lit ''Hello World'', authorName = lit ''Ann'', authorEmail = lit ''ann@example.org''\<rparr>))) / 200\<rceil>"
proof -
  let ?inp = "\<lparr>in_title = lit ''Hello World'', authorName = lit ''Ann'', authorEmail = lit ''ann@example.org''\<rparr>"
  let ?n = "newPost samplePlatform sampleReadings ?inp"
  have t: "title (newPost pf r inp) = in_title inp" for pf r inp by (simp add: newPost_def)
  have sz: "getObjectSize samplePlatform [?n] = 11"
    by (simp add: getObjectSize_def samplePlatform_def t lit_def)
  have c: "createPost samplePlatform sampleReadings ?inp None = (Inr ?n, Some (ArrayOf [?n]))"
    by (simp add: createPost_def Let_def getAllPosts_def sz MAX_STORAGE_SIZE_def setItem_def)
       (simp add: samplePlatform_def)
  have m: "readingTime (metadata ?n) = 0" "wordCount (metadata ?n) = 0"
    by (simp_all add: newPost_def)
  show ?thesis by (simp add: c m getAllPosts_ArrayOf)
qed

lemma countWords_hello: "countWords [paragraphBlock (lit ''hello world'')] = 2"
  by (simp add: countWords_def paragraphBlock_def splitSpaces_def lit_def isSpace_def)

theorem readingTime_on_update_witness:
  "upd_content (noUpdates\<lparr>upd_content := Some [paragraphBlock (lit ''hello world'')]\<rparr>)
     = Some [paragraphBlock (lit ''hello world'')] \<and>
   findIndex (\<lambda>q. post_id q = lit ''a'') (getAllPosts (Some (ArrayOf [samplePost (lit ''a'') (lit ''First'')])))
     = Some 0 \<and>
   map_option (\<lambda>p. (wordCount (metadata p), readingTime (metadata p)))
     (fst (updatePost samplePlatform (lit ''2024-06-01T12:00:00.000Z'') (lit ''a'')
        (noUpdates\<lparr>upd_content := Some [paragraphBlock (lit ''hello world'')]\<rparr>)
        (Some (ArrayOf [samplePost (lit ''a'') (lit ''First'')]))))
     = Some (2, 1)"
proof -
  let ?a = "samplePost (lit ''a'') (lit ''First'')"
  let ?u = "noUpdates\<lparr>upd_content := Some [paragraphBlock (lit ''hello world'')]\<rparr>"
  let ?now = "lit ''2024-06-01T12:00:00.000Z''"
  let ?st = "Some (ArrayOf [?a])"
  let ?posts = "(getAllPosts ?st)[0 := updatedPost (getAllPosts ?st ! 0) ?u ?now]"
  have g: "getAllPosts ?st = [?a]" by (rule getAllPosts_ArrayOf)
  have uc: "upd_content ?u = Some [paragraphBlock (lit ''hello world'')]" by simp
  have f: "findIndex (\<lambda>q. post_id q = lit ''a'') (getAllPosts ?st) = Some 0"
    unfolding g by (simp add: samplePost_def)
  have tt: "title (updatedPost ?a ?u ?now) = lit ''First''"
    by (simp add: updatedPost_def recalculateMetadata_def mergeUpdates_def noUpdates_def samplePost_def Let_def)
  have s: "getObjectSize samplePlatform ?posts \<le> MAX_STORAGE_SIZE"
    unfolding g by (simp add: getObjectSize_def samplePlatform_def tt) (simp add: lit_def MAX_STORAGE_SIZE_def)
  have k: "setItemOk samplePlatform ?posts" by (simp add: samplePlatform_def)
  from readingTime_on_update[OF uc f refl s k]
  obtain p' where p: "updatePost samplePlatform ?now (lit ''a'') ?u ?st = (Some p', Some (ArrayOf ?posts))"
    and w: "wordCount (metadata p') = countWords [paragraphBlock (lit ''hello world'')]"
    and r: "int (readingTime (metadata p')) = max 1 \<lceil>real (wordCount (metadata p')) / 200\<rceil>"
    by blast
  from w have w2: "wordCount (metadata p') = 2" by (simp only: countWords_hello)
  from r have "readingTime (metadata p') = 1" unfolding w2 by simp
  with w2 p uc f show ?thesis by simp
qed

section \<open>Excerpts\<close>

lemma updatedPost_title:
  "title (updatedPost p u now) = (case upd_title u of Some v \<Rightarrow> v | None \<Rightarrow> title p)"
  by (simp add: updatedPost_def recalculateMetadata_def mergeUpdates_def Let_def split: option.splits)

lemma extractExcerpt_long:
  assumes "find (\<lambda>b. block_type b = Paragraph) blocks = Some b"
    and "160 < length (block_content b)"
  shows "extractExcerpt t blocks = trim (take 160 (block_content b)) @ lit ''...''"
  using assms by (simp add: extractExcerpt_def Let_def)

lemma trim_take_id:
  assumes "160 < length s" and "\<not> isSpace (hd s)" and "\<not> isSpace (s ! 159)"
  shows "trim (take 160 s) = take 160 s"
proof -
  from assms(1) have ne: "take 160 s \<noteq> []" by auto
  from assms(1) have h: "hd (take 160 s) = hd s" by (cases s) auto
  from assms(1) have "length (take 160 s) = 160" by simp
  with ne have "last (take 160 s) = take 160 s ! 159" by (simp add: last_conv_nth)
  then have l: "last (take 160 s) = s ! 159" by simp
  show ?thesis unfolding trim_def
    by (rule strip_id) (simp add: h l assms)
qed

text \<open>
  Claim C9, as the code has it. For an update whose content has a paragraph block, when the
  text of the first paragraph block is longer than 160 code units, the excerpt computed
  and stored is the first 160 code units of the text with the white space at their start and
  end removed, followed by \<open>...\<close>; it is exactly the first 160 code units followed by
  \<open>...\<close> when the first and the 160th code unit are not white space.
\<close>

theorem excerpt_of_long_paragraph:
  assumes "upd_content u = Some blocks"
    and "find (\<lambda>b. block_type b = Paragraph) blocks = Some b"
    and "160 < length (block_content b)"
    and "findIndex (\<lambda>q. post_id q = i) (getAllPosts st) = Some k"
    and "posts' = (getAllPosts st)[k := updatedPost (getAllPosts st ! k) u now]"
    and "getObjectSize pf posts' \<le> MAX_STORAGE_SIZE"
    and "setItemOk pf posts'"
  shows "\<exists>p'. updatePost pf now i u st = (Some p', Some (ArrayOf posts')) \<and>
              getPostById (Some (ArrayOf posts')) i = Some p' \<and>
              excerpt (metadata p') = trim (take 160 (block_content b)) @ lit ''...'' \<and>
              (\<not> isSpace (hd (block_content b)) \<and> \<not> isSpace (block_content b ! 159) \<longrightarrow>
                 excerpt (metadata p') = take 160 (block_content b) @ lit ''...'')"
proof -
  let ?p = "updatedPost (getAllPosts st ! k) u now"
  have a: "updatePost pf now i u st = (Some ?p, Some (ArrayOf posts'))"
    using updatePost_commits[of i st k pf u now] assms(4-7) by simp
  have b: "getPostById (Some (ArrayOf posts')) i = Some ?p"
    using updated_is_stored[OF assms(4), of u now] assms(5) by simp
  have c: "excerpt (metadata ?p) = trim (take 160 (block_content b)) @ lit ''...''"
    using updatedPost_metadata[OF assms(1), of "getAllPosts st ! k" now]
      extractExcerpt_long[OF assms(2,3)] by simp
  have d: "\<not> isSpace (hd (block_content b)) \<and> \<not> isSpace (block_content b ! 159) \<longrightarrow>
           excerpt (metadata ?p) = take 160 (block_content b) @ lit ''...''"
    using c trim_take_id[OF assms(3)] by simp
  from a b c d show ?thesis by blast
qed

lemma trim_trailing_example:
  "trim (take 160 (replicate 159 97 @ [32] @ replicate 10 98)) = replicate 159 97"
proof -
  have t: "take 160 (replicate 159 97 @ [32] @ replicate 10 98) = replicate 159 (97::jschar) @ [32]"
    by simp
  have n: "\<not> isSpace 97" "isSpace 32" by (simp_all add: isSpace_def)
  have d1: "dropWhile isSpace (replicate 159 (97::jschar) @ [32]) = replicate 159 97 @ [32]"
    by (simp add: dropWhile_append n)
  have d2: "dropWhile isSpace (rev (replicate 159 (97::jschar) @ [32])) = replicate 159 97"
    by (simp add: n)
  show ?thesis unfolding t trim_def d1 d2 by simp
qed

text \<open>
  Claim C9 as stated fails when the first 160 code units end in white space: for a
  paragraph of 159 letters \<open>a\<close>, a space and ten letters \<open>b\<close>, the excerpt is the 159
  letters followed by \<open>...\<close>, which is not the first 160 code units followed by \<open>...\<close>.
\<close>

theorem excerpt_trims_counterexample:
  "160 < length (block_content (paragraphBlock (replicate 159 97 @ [32] @ replicate 10 98))) \<and>
   fst (updatePost samplePlatform (lit ''2024-06-01T12:00:00.000Z'') (lit ''a'')
        (noUpdates\<lparr>upd_content := Some [paragraphBlock (replicate 159 97 @ [32] @ replicate 10 98)]\<rparr>)
        (Some (ArrayOf [samplePost (lit ''a'') (lit ''First'')])))
     = Some (updatedPost (samplePost (lit ''a'') (lit ''First''))
         (noUpdates\<lparr>upd_content := Some [paragraphBlock (replicate 159 97 @ [32] @ replicate 10 98)]\<rparr>)
         (lit ''2024-06-01T12:00:00.000Z'')) \<and>
   excerpt (metadata (updatedPost (samplePost (lit ''a'') (lit ''First''))
         (noUpdates\<lparr>upd_content := Some [paragraphBlock (replicate 159 97 @ [32] @ replicate 10 98)]\<rparr>)
         (lit ''2024-06-01T12:00:00.000Z'')))
     = replicate 159 97 @ lit ''...'' \<and>
   replicate 159 97 @ lit ''...''
     \<noteq> take 160 (block_content (paragraphBlock (replicate 159 97 @ [32] @ replicate 10 98))) @ lit ''...''"
proof -
  let ?text = "replicate 159 97 @ [32] @ replicate 10 (98::jschar)"
  let ?a = "samplePost (lit ''a'') (lit ''First'')"
  let ?u = "noUpdates\<lparr>upd_content := Some [paragraphBlock ?text]\<rparr>"
  let ?now = "lit ''2024-06-01T12:00:00.000Z''"
  let ?st = "Some (ArrayOf [?a])"
  let ?posts = "(getAllPosts ?st)[0 := updatedPost (getAllPosts ?st ! 0) ?u ?now]"
  have g: "getAllPosts ?st = [?a]" by (rule getAllPosts_ArrayOf)
  have g0: "getAllPosts ?st ! 0 = ?a" unfolding g by simp
  have bc: "block_content (paragraphBlock ?text) = ?text" by (simp add: paragraphBlock_def)
  have len: "160 < length (block_content (paragraphBlock ?text))" unfolding bc by simp
  have uc: "upd_content ?u = Some [paragraphBlock ?text]" by simp
  have fb: "find (\<lambda>b. block_type b = Paragraph) [paragraphBlock ?text] = Some (paragraphBlock ?text)"
    by (simp add: paragraphBlock_def)
  have f: "findIndex (\<lambda>q. post_id q = lit ''a'') (getAllPosts ?st) = Some 0"
    unfolding g by (simp add: samplePost_def)
  have s: "getObjectSize samplePlatform ?posts \<le> MAX_STORAGE_SIZE"
    unfolding g
    by (simp add: getObjectSize_def samplePlatform_def updatedPost_title noUpdates_def samplePost_def
          lit_def MAX_STORAGE_SIZE_def)
  have k: "setItemOk samplePlatform ?posts" by (simp add: samplePlatform_def)
  have "updatePost samplePlatform ?now (lit ''a'') ?u ?st
          = (Some (updatedPost (getAllPosts ?st ! 0) ?u ?now), Some (ArrayOf ?posts))"
    by (rule updatePost_commits[OF f s k])
  then have up: "fst (updatePost samplePlatform ?now (lit ''a'') ?u ?st) = Some (updatedPost ?a ?u ?now)"
    by (simp only: g0 fst_conv)
  have ex: "excerpt (metadata (updatedPost ?a ?u ?now))
              = trim (take 160 (block_content (paragraphBlock ?text))) @ lit ''...''"
    using updatedPost_metadata[OF uc, of ?a ?now] extractExcerpt_long[OF fb len]
    by simp
  have ex2: "excerpt (metadata (updatedPost ?a ?u ?now)) = replicate 159 97 @ lit ''...''"
    unfolding ex bc trim_trailing_example ..
  have ne: "replicate 159 97 @ lit ''...'' \<noteq> take 160 (block_content (paragraphBlock ?text)) @ lit ''...''"
  proof
    assume "replicate 159 97 @ lit ''...'' = take 160 (block_content (paragraphBlock ?text)) @ lit ''...''"
    then have "length (replicate 159 (97::jschar) @ lit ''...'')
                 = length (take 160 (block_content (paragraphBlock ?text)) @ lit ''...'')"
      by simp
    then show False unfolding bc by (simp add: lit_def)
  qed
  from len up ex2 ne show ?thesis by blast
qed

theorem excerpt_of_long_paragraph_witness:
  "upd_content (noUpdates\<lparr>upd_content := Some [paragraphBlock (replicate 170 97)]\<rparr>)
     = Some [paragraphBlock (replicate 170 97)] \<and>
   find (\<lambda>b. block_type b = Paragraph) [paragraphBlock (replicate 170 97)]
     = Some (paragraphBlock (replicate 170 97)) \<and>
   160 < length (block_content (paragraphBlock (replicate 170 97))) \<and>
   \<not> isSpace (hd (block_content (paragraphBlock (replicate 170 97)))) \<and>
   \<not> isSpace (block_content (paragraphBlock (replicate 170 97)) ! 159) \<and>
   map_option (\<lambda>p. excerpt (metadata p))
     (fst (updatePost samplePlatform (lit ''2024-06-01T12:00:00.000Z'') (lit ''a'')
        (noUpdates\<lparr>upd_content := Some [paragraphBlock (replicate 170 97)]\<rparr>)
        (Some (ArrayOf [samplePost (lit ''a'') (lit ''First'')]))))
     = Some (replicate 160 97 @ lit ''...'')"
proof -
  let ?text = "replicate 170 (97::jschar)"
  let ?a = "samplePost (lit ''a'') (lit ''First'')"
  let ?u = "noUpdates\<lparr>upd_content := Some [paragraphBlock ?text]\<rparr>"
  let ?now = "lit ''2024-06-01T12:00:00.000Z''"
  let ?st = "Some (ArrayOf [?a])"
  let ?posts = "(getAllPosts ?st)[0 := updatedPost (getAllPosts ?st ! 0) ?u ?now]"
  have g: "getAllPosts ?st = [?a]" by (rule getAllPosts_ArrayOf)
  have bc: "block_content (paragraphBlock ?text) = ?text" by (simp add: paragraphBlock_def)
  have len: "160 < length (block_content (paragraphBlock ?text))" unfolding bc by simp
  have uc: "upd_content ?u = Some [paragraphBlock ?text]" by simp
  have fb: "find (\<lambda>b. block_type b = Paragraph) [paragraphBlock ?text] = Some (paragraphBlock ?text)"
    by (simp add: paragraphBlock_def)
  have f: "findIndex (\<lambda>q. post_id q = lit ''a'') (getAllPosts ?st) = Some 0"
    unfolding g by (simp add: samplePost_def)
  have s: "getObjectSize samplePlatform ?posts \<le> MAX_STORAGE_SIZE"
    unfolding g
    by (simp add: getObjectSize_def samplePlatform_def updatedPost_title noUpdates_def samplePost_def
          lit_def MAX_STORAGE_SIZE_def)
  have k: "setItemOk samplePlatform ?posts" by (simp add: samplePlatform_def)
  have sp: "\<not> isSpace (hd (block_content (paragraphBlock ?text)))"
     "\<not> isSpace (block_content (paragraphBlock ?text) ! 159)"
    unfolding bc by (simp_all add: isSpace_def hd_replicate)
  from excerpt_of_long_paragraph[OF uc fb len f refl s k] sp
  obtain p' where p: "updatePost samplePlatform ?now (lit ''a'') ?u ?st = (Some p', Some (ArrayOf ?posts))"
    and e: "excerpt (metadata p') = take 160 (block_content (paragraphBlock ?text)) @ lit ''...''"
    by blast
  have e2: "excerpt (metadata p') = replicate 160 97 @ lit ''...''" unfolding e bc by simp
  from uc fb len sp show ?thesis by (simp only: p fst_conv option.map e2) simp
qed

section \<open>The event loop\<close>

declare advance.simps [simp del]

lemma timers_runCallback: "timers (runCallback cb s) = timers s"
  by (simp add: runCallback_def executeAutoSave_def saveToLocalStorage_def Let_def
        split: option.splits timerCallback.splits)

lemma clock_runCallback: "clock (runCallback cb s) = clock s"
  by (simp add: runCallback_def executeAutoSave_def saveToLocalStorage_def Let_def
        split: option.splits timerCallback.splits)

lemma advance_none:
  "filter (\<lambda>x. dueAt x \<le> t) (timers s) = [] \<Longrightarrow> advance t s = s\<lparr>clock := max (clock s) t\<rparr>"
  by (subst advance.simps) (simp add: nextDue_def)

lemma advance_one:
  assumes "timers s = [x]" and "dueAt x \<le> t"
  shows "advance t s =
           (runCallback (callback x) (s\<lparr>timers := [], clock := max (clock s) (dueAt x)\<rparr>))
             \<lparr>clock := max (max (clock s) (dueAt x)) t\<rparr>"
proof -
  let ?s' = "runCallback (callback x) (s\<lparr>timers := [], clock := max (clock s) (dueAt x)\<rparr>)"
  have "advance t s = advance t ?s'"
    using assms by (subst advance.simps) (simp add: nextDue_def)
  also have "\<dots> = ?s'\<lparr>clock := max (clock ?s') t\<rparr>"
    by (rule advance_none) (simp add: timers_runCallback)
  finally show ?thesis by (simp add: clock_runCallback)
qed

lemma executeAutoSave_idle:
  "\<not> isSavingRef s \<Longrightarrow> isOnlineRef s \<Longrightarrow>
   executeAutoSave d n s =
     s\<lparr>isSavingRef := True, isSaving := True, retryCountRef := n - 1,
       draftWrites := draftWrites s @ (if draftWritable s then [(draftKey d, d, clock s)] else []),
       onSaveCalls := onSaveCalls s @ [(clock s, d)],
       awaiting := awaiting s @ [\<lparr>callData = d, attemptNumber = n\<rparr>]\<rparr>"
  by (simp add: executeAutoSave_def saveToLocalStorage_def Let_def)

lemma executeAutoSave_busy:
  "isSavingRef s \<Longrightarrow> executeAutoSave d n s = s\<lparr>pendingDataRef := Some d\<rparr>"
  by (simp add: executeAutoSave_def)

subsection \<open>Transitions between the phases\<close>

lemma idle_initialHook:
  "idle (initialHook True w)" "clock (initialHook True w) = 0" "onSaveCalls (initialHook True w) = []"
  by (simp_all add: idle_def initialHook_def)

lemma first_autoSave:
  assumes "idle s" and "clock s \<le> t"
  shows "debouncing (step opts (t, AutoSave d) s) (t + debounceDelay opts) d \<and>
         onSaveCalls (step opts (t, AutoSave d) s) = onSaveCalls s \<and>
         clock (step opts (t, AutoSave d) s) = t"
proof -
  from assms(1) have i: "timers s = []" "awaiting s = []" "\<not> isSavingRef s" "isOnlineRef s"
    "0 < nextTimerId s" by (simp_all add: idle_def)
  have a: "advance t s = s\<lparr>clock := t\<rparr>"
    using assms(2) by (subst advance_none) (simp_all add: i max_def)
  show ?thesis
    unfolding step_def fst_conv snd_conv a using i
    by (simp add: handle_def autoSave_def setTimeout_def clearTimeout_def clearDebounceTimer_def debouncing_def Let_def
          split: option.splits)
qed

lemma next_autoSave:
  assumes "debouncing s due d" and "clock s \<le> t" and "t < due"
  shows "debouncing (step opts (t, AutoSave d') s) (t + debounceDelay opts) d' \<and>
         onSaveCalls (step opts (t, AutoSave d') s) = onSaveCalls s \<and>
         clock (step opts (t, AutoSave d') s) = t"
proof -
  from assms(1) obtain i where
    tm: "timers s = [\<lparr>timerId = i, dueAt = due, callback = DebounceCallback\<rparr>]"
    and ref: "debounceTimerRef s = Some i" "0 < i"
    and rest: "\<not> isSavingRef s" "isOnlineRef s" "awaiting s = []" "0 < nextTimerId s"
    by (auto simp: debouncing_def)
  have a: "advance t s = s\<lparr>clock := t\<rparr>"
    using assms(2,3) by (subst advance_none) (simp_all add: tm max_def)
  show ?thesis
    using rest
    by (simp add: step_def handle_def a autoSave_def setTimeout_def clearTimeout_def clearDebounceTimer_def tm ref
          debouncing_def Let_def)
qed

lemma debounce_fires:
  assumes "debouncing s due d" and "due \<le> t"
  shows "saving (advance t s) d 1 \<and> onSaveCalls (advance t s) = onSaveCalls s @ [(due, d)] \<and>
         clock (advance t s) = t \<and> error (advance t s) = error s \<and>
         lastSavedAt (advance t s) = lastSavedAt s"
proof -
  from assms(1) obtain i where
    tm: "timers s = [\<lparr>timerId = i, dueAt = due, callback = DebounceCallback\<rparr>]"
    and rest: "pendingDataRef s = Some d" "\<not> isSavingRef s" "isOnlineRef s" "awaiting s = []"
      "clock s \<le> due"
    by (auto simp: debouncing_def)
  show ?thesis
    using rest assms(2)
    by (simp add: advance_one[OF tm] runCallback_def executeAutoSave_idle saving_def max_def)
qed

lemma retry_fires:
  assumes "retrying s due d n" and "due \<le> t"
  shows "saving (advance t s) d n \<and> onSaveCalls (advance t s) = onSaveCalls s @ [(due, d)] \<and>
         clock (advance t s) = t \<and> error (advance t s) = error s \<and>
         lastSavedAt (advance t s) = lastSavedAt s"
proof -
  from assms(1) obtain i where
    tm: "timers s = [\<lparr>timerId = i, dueAt = due, callback = RetryCallback n\<rparr>]"
    and rest: "pendingDataRef s = Some d" "\<not> isSavingRef s" "isOnlineRef s" "awaiting s = []"
      "clock s \<le> due"
    by (auto simp: retrying_def)
  show ?thesis
    using rest assms(2)
    by (simp add: advance_one[OF tm] runCallback_def executeAutoSave_idle saving_def max_def)
qed

lemma saving_waits:
  assumes "saving s d n"
  shows "advance t s = s\<lparr>clock := max (clock s) t\<rparr>"
  using assms by (intro advance_none) (simp add: saving_def)

lemma rejected_retries:
  assumes "saving s d n" and "n < maxRetries opts"
  shows "retrying (handle opts (SaveRejected 0 r) s) (clock s + retryDelay opts * 2 ^ (n - 1)) d (n + 1) \<and>
         onSaveCalls (handle opts (SaveRejected 0 r) s) = onSaveCalls s \<and>
         clock (handle opts (SaveRejected 0 r) s) = clock s \<and>
         error (handle opts (SaveRejected 0 r) s) = Some (toError r)"
  using assms
  by (simp add: saving_def retrying_def handle_def saveRejected_def setTimeout_def Let_def)

lemma rejected_gives_up:
  assumes "saving s d n" and "\<not> n < maxRetries opts"
  shows "timers (handle opts (SaveRejected 0 r) s) = [] \<and>
         awaiting (handle opts (SaveRejected 0 r) s) = [] \<and>
         onSaveCalls (handle opts (SaveRejected 0 r) s) = onSaveCalls s \<and>
         error (handle opts (SaveRejected 0 r) s) = Some (toError r)"
  using assms
  by (simp add: saving_def handle_def saveRejected_def Let_def)

lemma resolved_settles:
  assumes "saving s d n"
  shows "settled (handle opts (SaveResolved 0) s) \<and>
         onSaveCalls (handle opts (SaveResolved 0) s) = onSaveCalls s \<and>
         clock (handle opts (SaveResolved 0) s) = clock s \<and>
         error (handle opts (SaveResolved 0) s) = None \<and>
         lastSavedAt (handle opts (SaveResolved 0) s) = Some (clock s) \<and>
         \<not> isSaving (handle opts (SaveResolved 0) s) \<and>
         retryCountRef (handle opts (SaveResolved 0) s) = 0"
  using assms
  by (simp add: saving_def settled_def handle_def saveFulfilled_def Let_def)

lemma settled_waits:
  assumes "settled s"
  shows "advance t s = s\<lparr>clock := max (clock s) t\<rparr>"
  using assms by (intro advance_none) (simp add: settled_def)

section \<open>Windows and invariants\<close>

lemma run_Nil: "run opts [] s = s"
  by (simp add: run_def)

lemma run_Cons: "run opts (e # es) s = run opts es (step opts e s)"
  by (simp add: run_def)

lemma window_run:
  assumes "debouncing s (t + debounceDelay opts) d" and "clock s = t" and "windowed (debounceDelay opts) t cs"
  shows "debouncing (run opts (autoSaveEvents cs) s)
           (fst (last ((t, d) # cs)) + debounceDelay opts) (snd (last ((t, d) # cs))) \<and>
         onSaveCalls (run opts (autoSaveEvents cs) s) = onSaveCalls s"
  using assms
proof (induction cs arbitrary: s t d)
  case Nil
  then show ?case by (simp add: autoSaveEvents_def run_Nil)
next
  case (Cons c cs)
  from Cons.prems(3) have w: "t \<le> fst c" "fst c < t + debounceDelay opts"
    "windowed (debounceDelay opts) (fst c) cs" by simp_all
  let ?s' = "step opts (fst c, AutoSave (snd c)) s"
  from next_autoSave[OF Cons.prems(1), of "fst c" opts "snd c"] w(1,2) Cons.prems(2)
  have n: "debouncing ?s' (fst c + debounceDelay opts) (snd c)" "onSaveCalls ?s' = onSaveCalls s"
    "clock ?s' = fst c" by simp_all
  from Cons.IH[OF n(1) n(3) w(3)] n(2)
  show ?case by (simp add: autoSaveEvents_def run_Cons)
qed

lemma window_closes:
  assumes "idle s0" and "clock s0 \<le> t1"
    and "windowed (debounceDelay opts) t1 rest"
    and "fst (last ((t1, d1) # rest)) + debounceDelay opts \<le> T"
  shows "saving (advance T (run opts (autoSaveEvents ((t1, d1) # rest)) s0))
           (snd (last ((t1, d1) # rest))) 1 \<and>
         onSaveCalls (advance T (run opts (autoSaveEvents ((t1, d1) # rest)) s0))
           = onSaveCalls s0 @
             [(fst (last ((t1, d1) # rest)) + debounceDelay opts, snd (last ((t1, d1) # rest)))]"
proof -
  let ?s1 = "step opts (t1, AutoSave d1) s0"
  let ?sw = "run opts (autoSaveEvents rest) ?s1"
  have r: "run opts (autoSaveEvents ((t1, d1) # rest)) s0 = ?sw"
    by (simp add: autoSaveEvents_def run_Cons)
  from first_autoSave[OF assms(1,2), of opts d1]
  have f: "debouncing ?s1 (t1 + debounceDelay opts) d1" "onSaveCalls ?s1 = onSaveCalls s0"
    "clock ?s1 = t1" by simp_all
  from window_run[OF f(1) f(3) assms(3)] f(2)
  have w: "debouncing ?sw (fst (last ((t1, d1) # rest)) + debounceDelay opts) (snd (last ((t1, d1) # rest)))"
    "onSaveCalls ?sw = onSaveCalls s0" by simp_all
  from debounce_fires[OF w(1) assms(4)] w(2) show ?thesis unfolding r by simp
qed

subsection \<open>Invariants\<close>

lemma nextDue_mem: "nextDue t ts = Some x \<Longrightarrow> x \<in> set ts"
proof -
  have mem: "earliest m ys \<in> set (m # ys)" for m :: timer and ys
    by (induction ys arbitrary: m) auto
  assume "nextDue t ts = Some x"
  then obtain y ys where f: "filter (\<lambda>x. dueAt x \<le> t) ts = y # ys" and x: "x = earliest y ys"
    by (auto simp: nextDue_def split: list.splits)
  from mem[of y ys] x f have "x \<in> set (filter (\<lambda>x. dueAt x \<le> t) ts)" by simp
  then show ?thesis by simp
qed

lemma advance_preserves_fired:
  assumes "P s"
    and "\<And>u x c. P u \<Longrightarrow> x \<in> set (timers u) \<Longrightarrow>
           P (runCallback (callback x)
                (u\<lparr>timers := filter (\<lambda>y. timerId y \<noteq> timerId x) (timers u), clock := c\<rparr>))"
    and "\<And>u c. P u \<Longrightarrow> P (u\<lparr>clock := c\<rparr>)"
  shows "P (advance t s)"
  using assms(1)
proof (induction t s rule: advance.induct)
  case (1 t s)
  show ?case
  proof (cases "nextDue t (timers s)")
    case None
    then have "advance t s = s\<lparr>clock := max (clock s) t\<rparr>" by (subst advance.simps) simp
    with 1(2) assms(3) show ?thesis by simp
  next
    case (Some x)
    let ?s' = "runCallback (callback x)
            (s\<lparr>timers := filter (\<lambda>y. timerId y \<noteq> timerId x) (timers s),
               clock := max (clock s) (dueAt x)\<rparr>)"
    from Some have e: "advance t s = advance t ?s'" by (subst advance.simps) simp
    from 1(2) nextDue_mem[OF Some] have "P ?s'" by (rule assms(2))
    from 1(1)[OF Some this] e show ?thesis by simp
  qed
qed

lemma advance_preserves:
  assumes "P s"
    and "\<And>cb u. P u \<Longrightarrow> P (runCallback cb u)"
    and "\<And>u ts c. P u \<Longrightarrow> P (u\<lparr>timers := ts, clock := c\<rparr>)"
    and "\<And>u c. P u \<Longrightarrow> P (u\<lparr>clock := c\<rparr>)"
  shows "P (advance t s)"
  using assms(1)
proof (rule advance_preserves_fired)
  fix u x c assume "P u"
  then show "P (runCallback (callback x)
                (u\<lparr>timers := filter (\<lambda>y. timerId y \<noteq> timerId x) (timers u), clock := c\<rparr>))"
    by (intro assms(2,3))
next
  fix u c assume "P u" then show "P (u\<lparr>clock := c\<rparr>)" by (rule assms(4))
qed

lemma set_remove_nth: "set (take k xs @ drop (Suc k) xs) \<subseteq> set xs"
  using set_take_subset[of k xs] set_drop_subset[of "Suc k" xs] by auto

lemma onlyPayload_executeAutoSave:
  "onlyPayload k d s \<Longrightarrow> onlyPayload k d (executeAutoSave d n s)"
  by (auto simp: onlyPayload_def executeAutoSave_def saveToLocalStorage_def Let_def)

lemma onlyPayload_runCallback: "onlyPayload k d s \<Longrightarrow> onlyPayload k d (runCallback cb s)"
proof -
  assume a: "onlyPayload k d s"
  show ?thesis
  proof (cases "pendingDataRef s")
    case None then show ?thesis using a by (simp add: runCallback_def)
  next
    case (Some d')
    with a have "d' = d" by (simp add: onlyPayload_def)
    with Some a show ?thesis
      by (cases cb) (simp_all add: runCallback_def onlyPayload_executeAutoSave)
  qed
qed

lemma onlyPayload_advance: "onlyPayload k d s \<Longrightarrow> onlyPayload k d (advance t s)"
  by (erule advance_preserves) (simp_all add: onlyPayload_runCallback, simp_all add: onlyPayload_def)

lemma onlyPayload_handle:
  assumes "onlyPayload k d s" and "\<not> isAutoSave e"
  shows "onlyPayload k d (handle opts e s)"
proof (cases e)
  case (AutoSave x) with assms(2) show ?thesis by simp
next
  case (SaveResolved i)
  have "set (take i (awaiting s) @ drop (Suc i) (awaiting s)) \<subseteq> set (awaiting s)"
    by (rule set_remove_nth)
  with assms(1) SaveResolved show ?thesis
    by (auto simp: handle_def saveFulfilled_def onlyPayload_def Let_def)
next
  case (SaveRejected i r)
  have "set (take i (awaiting s) @ drop (Suc i) (awaiting s)) \<subseteq> set (awaiting s)"
    by (rule set_remove_nth)
  with assms(1) SaveRejected show ?thesis
    by (auto simp: handle_def saveRejected_def setTimeout_def onlyPayload_def Let_def)
next
  case Online
  show ?thesis
  proof (cases "pendingDataRef s")
    case None with assms(1) Online show ?thesis
      by (simp add: handle_def handleOnline_def onlyPayload_def Let_def)
  next
    case (Some d')
    with assms(1) have "d' = d" by (simp add: onlyPayload_def)
    moreover from assms(1) have "onlyPayload k d (s\<lparr>isOnlineRef := True\<rparr>)"
      by (simp add: onlyPayload_def)
    ultimately show ?thesis using Online Some assms(1)
      by (simp add: handle_def handleOnline_def Let_def onlyPayload_executeAutoSave)
  qed
next
  case Offline with assms(1) show ?thesis
    by (simp add: handle_def handleOffline_def onlyPayload_def)
next
  case BeforeUnload with assms(1) show ?thesis
    by (auto simp: handle_def handleBeforeUnload_def saveToLocalStorage_def clearTimeout_def clearDebounceTimer_def
          onlyPayload_def split: option.splits)
next
  case Unmount with assms(1) show ?thesis
    by (auto simp: handle_def unmount_def clearTimeout_def clearDebounceTimer_def onlyPayload_def split: option.splits)
next
  case ClearError with assms(1) show ?thesis by (simp add: handle_def onlyPayload_def)
qed

lemma onlyPayload_run:
  "onlyPayload k d s \<Longrightarrow> \<forall>e \<in> set evs. \<not> isAutoSave (snd e) \<Longrightarrow> onlyPayload k d (run opts evs s)"
proof (induction evs arbitrary: s)
  case Nil then show ?case by (simp add: run_Nil)
next
  case (Cons e evs)
  from Cons.prems have "onlyPayload k d (step opts e s)"
    by (simp add: step_def onlyPayload_handle onlyPayload_advance)
  with Cons show ?case by (simp add: run_Cons)
qed

lemma settled_handle:
  assumes "settled s" and "\<not> isAutoSave e"
  shows "settled (handle opts e s) \<and> onSaveCalls (handle opts e s) = onSaveCalls s"
  using assms
  by (cases e)
     (auto simp: handle_def settled_def handleOnline_def handleOffline_def handleBeforeUnload_def
        unmount_def clearTimeout_def clearDebounceTimer_def Let_def split: option.splits)

lemma settled_run:
  "settled s \<Longrightarrow> \<forall>e \<in> set evs. \<not> isAutoSave (snd e) \<Longrightarrow>
   settled (run opts evs s) \<and> onSaveCalls (run opts evs s) = onSaveCalls s"
proof (induction evs arbitrary: s)
  case Nil then show ?case by (simp add: run_Nil)
next
  case (Cons e evs)
  from Cons.prems(1) have a: "advance (fst e) s = s\<lparr>clock := max (clock s) (fst e)\<rparr>"
    by (rule settled_waits)
  from Cons.prems(1) have "settled (s\<lparr>clock := max (clock s) (fst e)\<rparr>)" by (simp add: settled_def)
  from settled_handle[OF this, of "snd e" opts] Cons.prems(2)
  have "settled (step opts e s)" "onSaveCalls (step opts e s) = onSaveCalls s"
    by (simp_all add: step_def a)
  with Cons.IH[of "step opts e s"] Cons.prems(2) show ?case by (simp add: run_Cons)
qed

section \<open>Coalescing\<close>

text \<open>
  Claim C3. The hook is online and at rest (\<open>idle s0\<close>; the hook as mounted is so). Calls
  of \<open>autoSave\<close> come in one debounce window (\<open>(t1, d1)\<close> and then \<open>rest\<close>, each before
  the delay of the one before it has run out), followed by no other call of \<open>autoSave\<close>.
  Once the delay of the last call has run out (time \<open>T\<close>), \<open>onSave\<close> has been called
  exactly once more, at the end of that delay and with the payload of the last call.
  Whatever happens then, other than a new call of \<open>autoSave\<close> (\<open>evs\<close>: the promise
  settles, retries, window events), every later call of \<open>onSave\<close> carries the payload of
  the last call, so that no earlier payload of the window is ever given to \<open>onSave\<close>; and
  when the one call is fulfilled (at \<open>T'\<close>), it stays the only call.
\<close>

theorem autosave_coalesces_window:
  assumes "idle s0" and "clock s0 \<le> t1"
    and "windowed (debounceDelay opts) t1 rest"
    and "fst (last ((t1, d1) # rest)) + debounceDelay opts \<le> T"
    and "\<forall>e \<in> set evs. \<not> isAutoSave (snd e)"
  shows "onSaveCalls (advance T (run opts (autoSaveEvents ((t1, d1) # rest)) s0))
           = onSaveCalls s0 @
             [(fst (last ((t1, d1) # rest)) + debounceDelay opts, snd (last ((t1, d1) # rest)))] \<and>
         (\<forall>x \<in> set (drop (length (onSaveCalls s0)) (onSaveCalls (run opts evs
              (advance T (run opts (autoSaveEvents ((t1, d1) # rest)) s0))))).
            snd x = snd (last ((t1, d1) # rest))) \<and>
         onSaveCalls (run opts evs (step opts (T', SaveResolved 0)
              (advance T (run opts (autoSaveEvents ((t1, d1) # rest)) s0))))
           = onSaveCalls s0 @
             [(fst (last ((t1, d1) # rest)) + debounceDelay opts, snd (last ((t1, d1) # rest)))]"
proof -
  let ?dl = "snd (last ((t1, d1) # rest))"
  let ?tl = "fst (last ((t1, d1) # rest))"
  let ?s = "advance T (run opts (autoSaveEvents ((t1, d1) # rest)) s0)"
  from window_closes[OF assms(1-4)]
  have sv: "saving ?s ?dl 1"
    and log: "onSaveCalls ?s = onSaveCalls s0 @ [(?tl + debounceDelay opts, ?dl)]"
    by simp_all
  from sv log have "onlyPayload (length (onSaveCalls s0)) ?dl ?s"
    by (simp add: onlyPayload_def saving_def)
  from onlyPayload_run[OF this assms(5), of opts]
  have b: "\<forall>x \<in> set (drop (length (onSaveCalls s0)) (onSaveCalls (run opts evs ?s))). snd x = ?dl"
    by (simp add: onlyPayload_def)
  let ?r = "step opts (T', SaveResolved 0) ?s"
  from sv have sv': "saving (?s\<lparr>clock := max (clock ?s) T'\<rparr>) ?dl 1" by (simp add: saving_def)
  have "?r = handle opts (SaveResolved 0) (?s\<lparr>clock := max (clock ?s) T'\<rparr>)"
    by (simp add: step_def saving_waits[OF sv])
  with resolved_settles[OF sv', of opts] log
  have "settled ?r" "onSaveCalls ?r = onSaveCalls s0 @ [(?tl + debounceDelay opts, ?dl)]"
    by simp_all
  with settled_run[of ?r evs opts] assms(5)
  have c: "onSaveCalls (run opts evs ?r) = onSaveCalls s0 @ [(?tl + debounceDelay opts, ?dl)]"
    by simp
  from log b c show ?thesis by blast
qed

theorem autosave_coalesces_window_witness:
  "idle (initialHook True True) \<and> clock (initialHook True True) \<le> 0 \<and>
   windowed (debounceDelay defaultOptions) 0
     [(1000, samplePost (lit ''a'') (lit ''He'')), (2500, samplePost (lit ''a'') (lit ''Hello''))] \<and>
   fst (last [(0, samplePost (lit ''a'') (lit ''H'')), (1000, samplePost (lit ''a'') (lit ''He'')),
              (2500, samplePost (lit ''a'') (lit ''Hello''))]) + debounceDelay defaultOptions \<le> 6000 \<and>
   \<not> isAutoSave (snd (9000, Online)) \<and>
   onSaveCalls (advance 6000 (run defaultOptions
       (autoSaveEvents [(0, samplePost (lit ''a'') (lit ''H'')), (1000, samplePost (lit ''a'') (lit ''He'')),
              (2500, samplePost (lit ''a'') (lit ''Hello''))])
       (initialHook True True)))
     = [(5500, samplePost (lit ''a'') (lit ''Hello''))] \<and>
   onSaveCalls (run defaultOptions [(9000, Online)] (step defaultOptions (7000, SaveResolved 0)
      (advance 6000 (run defaultOptions
       (autoSaveEvents [(0, samplePost (lit ''a'') (lit ''H'')), (1000, samplePost (lit ''a'') (lit ''He'')),
              (2500, samplePost (lit ''a'') (lit ''Hello''))])
       (initialHook True True)))))
     = [(5500, samplePost (lit ''a'') (lit ''Hello''))]"
proof -
  let ?rest = "[(1000, samplePost (lit ''a'') (lit ''He'')), (2500, samplePost (lit ''a'') (lit ''Hello''))]"
  have h0: "idle (initialHook True True)" "clock (initialHook True True) \<le> 0"
    by (simp_all add: idle_initialHook)
  have h1: "windowed (debounceDelay defaultOptions) 0 ?rest" by (simp add: defaultOptions_def)
  have h2: "fst (last ((0, samplePost (lit ''a'') (lit ''H'')) # ?rest)) + debounceDelay defaultOptions \<le> 6000"
    by (simp add: defaultOptions_def)
  have h3: "\<forall>e \<in> set [(9000, Online)]. \<not> isAutoSave (snd e)" by simp
  from autosave_coalesces_window[OF h0 h1 h2 h3, of 7000] h0 h1 h2 h3
  show ?thesis by (simp add: defaultOptions_def idle_initialHook)
qed

section \<open>One commit in flight\<close>

lemma oneInFlight_executeAutoSave: "oneInFlight s \<Longrightarrow> oneInFlight (executeAutoSave d n s)"
  by (auto simp: oneInFlight_def executeAutoSave_def saveToLocalStorage_def Let_def)

lemma oneInFlight_runCallback: "oneInFlight s \<Longrightarrow> oneInFlight (runCallback cb s)"
  by (cases cb; cases "pendingDataRef s")
     (simp_all add: runCallback_def oneInFlight_executeAutoSave)

lemma oneInFlight_advance: "oneInFlight s \<Longrightarrow> oneInFlight (advance t s)"
  by (erule advance_preserves) (simp_all add: oneInFlight_runCallback, simp_all add: oneInFlight_def)

lemma oneInFlight_handle:
  assumes "oneInFlight s"
  shows "oneInFlight (handle opts e s)"
proof (cases e)
  case (AutoSave d) with assms show ?thesis
    by (auto simp: handle_def autoSave_def setTimeout_def clearTimeout_def clearDebounceTimer_def oneInFlight_def Let_def
          split: option.splits)
next
  case (SaveResolved k) with assms show ?thesis
    by (auto simp: handle_def saveFulfilled_def oneInFlight_def Let_def)
next
  case (SaveRejected k r) with assms show ?thesis
    by (auto simp: handle_def saveRejected_def setTimeout_def oneInFlight_def Let_def)
next
  case Online
  from assms have "oneInFlight (s\<lparr>isOnlineRef := True\<rparr>)" by (simp add: oneInFlight_def)
  with Online assms show ?thesis
    by (cases "pendingDataRef s")
       (simp_all add: handle_def handleOnline_def Let_def oneInFlight_executeAutoSave)
next
  case Offline with assms show ?thesis by (simp add: handle_def handleOffline_def oneInFlight_def)
next
  case BeforeUnload with assms show ?thesis
    by (auto simp: handle_def handleBeforeUnload_def saveToLocalStorage_def clearTimeout_def clearDebounceTimer_def
          oneInFlight_def split: option.splits)
next
  case Unmount with assms show ?thesis
    by (auto simp: handle_def unmount_def clearTimeout_def clearDebounceTimer_def oneInFlight_def split: option.splits)
next
  case ClearError with assms show ?thesis by (simp add: handle_def oneInFlight_def)
qed

lemma oneInFlight_run: "oneInFlight s \<Longrightarrow> oneInFlight (run opts evs s)"
proof (induction evs arbitrary: s)
  case Nil then show ?case by (simp add: run_Nil)
next
  case (Cons e evs)
  from Cons.prems have "oneInFlight (step opts e s)"
    by (simp add: step_def oneInFlight_handle oneInFlight_advance)
  then have "oneInFlight (run opts evs (step opts e s))" by (rule Cons.IH)
  then show ?case by (simp only: run_Cons)
qed

text \<open>
  The part of claim C4 that holds: whatever happens to the hook, at most one call of
  \<open>onSave\<close> is in flight; a run of \<open>executeAutoSave\<close> that finds one in flight only
  stores its payload in \<open>pendingDataRef\<close>.
\<close>

lemma at_most_one_in_flight:
  "length (awaiting (run opts evs (initialHook online w))) \<le> 1"
proof -
  have "oneInFlight (initialHook online w)" by (simp add: oneInFlight_def initialHook_def)
  then have "oneInFlight (run opts evs (initialHook online w))" by (rule oneInFlight_run)
  then show ?thesis unfolding oneInFlight_def by blast
qed

lemma autoSave_while_saving:
  assumes "saving s d n"
  shows "\<exists>i. timers (handle opts (AutoSave d') s)
               = [\<lparr>timerId = i, dueAt = clock s + debounceDelay opts, callback = DebounceCallback\<rparr>] \<and>
             awaiting (handle opts (AutoSave d') s) = [\<lparr>callData = d, attemptNumber = n\<rparr>] \<and>
             isSavingRef (handle opts (AutoSave d') s) \<and>
             pendingDataRef (handle opts (AutoSave d') s) = Some d' \<and>
             onSaveCalls (handle opts (AutoSave d') s) = onSaveCalls s \<and>
             clock (handle opts (AutoSave d') s) = clock s"
  using assms
  by (auto simp: saving_def handle_def autoSave_def setTimeout_def clearTimeout_def clearDebounceTimer_def Let_def
        split: option.splits)

lemma debounce_fires_while_saving:
  assumes "timers s = [\<lparr>timerId = i, dueAt = due, callback = DebounceCallback\<rparr>]"
    and "awaiting s = [c]" and "isSavingRef s" and "pendingDataRef s = Some d'" and "due \<le> t"
  shows "timers (advance t s) = [] \<and> awaiting (advance t s) = [c] \<and>
         pendingDataRef (advance t s) = Some d' \<and> onSaveCalls (advance t s) = onSaveCalls s \<and>
         isSavingRef (advance t s)"
  using assms(2-5)
  by (simp add: advance_one[OF assms(1)] runCallback_def executeAutoSave_busy)

lemma resolved_drops_pending:
  assumes "awaiting s = [c]" and "timers s = []"
  shows "settled (handle opts (SaveResolved 0) s) \<and>
         onSaveCalls (handle opts (SaveResolved 0) s) = onSaveCalls s"
  using assms by (simp add: handle_def saveFulfilled_def settled_def Let_def)

text \<open>
  Claim C4 (the code differs). \<open>autoSave(d1)\<close> at time 0 starts the commit of \<open>d1\<close> at
  3000. \<open>autoSave(d2)\<close> at 3100 comes while that commit is in flight; its debounce timer
  fires at 6100, still during the commit, and \<open>executeAutoSave\<close> stores \<open>d2\<close> in
  \<open>pendingDataRef\<close> without calling \<open>onSave\<close>. When the commit of \<open>d1\<close> is fulfilled at
  7000, \<open>pendingDataRef\<close> is set to \<open>null\<close> and nothing is flushed: at every later time
  \<open>onSave\<close> has been called once, with \<open>d1\<close>, and no timer or payload is left for \<open>d2\<close>.
\<close>

theorem queued_payload_is_dropped:
  "onSaveCalls (advance (7000 + k) (run defaultOptions
       [(0, AutoSave d1), (3100, AutoSave d2), (7000, SaveResolved 0)] (initialHook True w)))
     = [(3000, d1)] \<and>
   pendingDataRef (advance (7000 + k) (run defaultOptions
       [(0, AutoSave d1), (3100, AutoSave d2), (7000, SaveResolved 0)] (initialHook True w)))
     = None \<and>
   timers (advance (7000 + k) (run defaultOptions
       [(0, AutoSave d1), (3100, AutoSave d2), (7000, SaveResolved 0)] (initialHook True w)))
     = [] \<and>
   awaiting (advance (7000 + k) (run defaultOptions
       [(0, AutoSave d1), (3100, AutoSave d2), (7000, SaveResolved 0)] (initialHook True w)))
     = []"
proof -
  let ?o = defaultOptions
  let ?s1 = "step ?o (0, AutoSave d1) (initialHook True w)"
  let ?a2 = "advance 3100 ?s1"
  let ?s2 = "handle ?o (AutoSave d2) ?a2"
  let ?a3 = "advance 7000 ?s2"
  let ?s3 = "handle ?o (SaveResolved 0) ?a3"
  have D: "debounceDelay ?o = 3000" by (simp add: defaultOptions_def)
  from first_autoSave[OF idle_initialHook(1), of w 0 ?o d1]
  have f1: "debouncing ?s1 3000 d1" "onSaveCalls ?s1 = []" by (simp_all add: D idle_initialHook)
  from debounce_fires[OF f1(1), of 3100] f1(2)
  have f2: "saving ?a2 d1 1" "onSaveCalls ?a2 = [(3000, d1)]" "clock ?a2 = 3100" by simp_all
  from autoSave_while_saving[OF f2(1), of ?o d2] f2(2,3) obtain i where
    f3: "timers ?s2 = [\<lparr>timerId = i, dueAt = 6100, callback = DebounceCallback\<rparr>]"
      "awaiting ?s2 = [\<lparr>callData = d1, attemptNumber = 1\<rparr>]" "isSavingRef ?s2"
      "pendingDataRef ?s2 = Some d2" "onSaveCalls ?s2 = [(3000, d1)]"
    by (auto simp: D)
  from debounce_fires_while_saving[OF f3(1,2,3,4), of 7000] f3(5)
  have f4: "timers ?a3 = []" "awaiting ?a3 = [\<lparr>callData = d1, attemptNumber = 1\<rparr>]"
    "pendingDataRef ?a3 = Some d2" "onSaveCalls ?a3 = [(3000, d1)]" by simp_all
  from resolved_drops_pending[OF f4(2) f4(1), of ?o] f4(4)
  have f5: "settled ?s3" "onSaveCalls ?s3 = [(3000, d1)]" by simp_all
  have r: "run ?o [(0, AutoSave d1), (3100, AutoSave d2), (7000, SaveResolved 0)] (initialHook True w) = ?s3"
    by (simp add: run_Cons run_Nil step_def)
  from f5 show ?thesis unfolding r by (simp add: settled_waits[OF f5(1)] settled_def)
qed

section \<open>Retries\<close>

lemma attemptsPositive_executeAutoSave:
  "attemptsPositive s \<Longrightarrow> 1 \<le> n \<Longrightarrow> attemptsPositive (executeAutoSave d n s)"
  by (auto simp: attemptsPositive_def executeAutoSave_def saveToLocalStorage_def Let_def)

lemma attemptsPositive_fired:
  assumes "attemptsPositive u" and "x \<in> set (timers u)"
  shows "attemptsPositive (runCallback (callback x)
           (u\<lparr>timers := filter (\<lambda>y. timerId y \<noteq> timerId x) (timers u), clock := c\<rparr>))"
proof -
  let ?u = "u\<lparr>timers := filter (\<lambda>y. timerId y \<noteq> timerId x) (timers u), clock := c\<rparr>"
  from assms(1) have p: "attemptsPositive ?u" by (auto simp: attemptsPositive_def)
  show ?thesis
  proof (cases "pendingDataRef u")
    case None with p show ?thesis by (simp add: runCallback_def)
  next
    case (Some d)
    show ?thesis
    proof (cases "callback x")
      case DebounceCallback
      with Some p show ?thesis by (simp add: runCallback_def attemptsPositive_executeAutoSave)
    next
      case (RetryCallback n)
      with assms have "1 \<le> n" by (force simp: attemptsPositive_def)
      with RetryCallback Some p show ?thesis
        by (simp add: runCallback_def attemptsPositive_executeAutoSave)
    qed
  qed
qed

lemma attemptsPositive_advance: "attemptsPositive s \<Longrightarrow> attemptsPositive (advance t s)"
  by (erule advance_preserves_fired)
     (simp_all add: attemptsPositive_fired, simp add: attemptsPositive_def)

lemma attemptsPositive_handle:
  assumes "attemptsPositive s"
  shows "attemptsPositive (handle opts e s)"
proof (cases e)
  case (AutoSave d) with assms show ?thesis
    by (auto simp: handle_def autoSave_def setTimeout_def clearTimeout_def clearDebounceTimer_def
          attemptsPositive_def Let_def split: option.splits)
next
  case (SaveResolved i)
  have "set (take i (awaiting s) @ drop (Suc i) (awaiting s)) \<subseteq> set (awaiting s)"
    by (rule set_remove_nth)
  with assms SaveResolved show ?thesis
    by (auto simp: handle_def saveFulfilled_def attemptsPositive_def Let_def)
next
  case (SaveRejected i r)
  have "set (take i (awaiting s) @ drop (Suc i) (awaiting s)) \<subseteq> set (awaiting s)"
    by (rule set_remove_nth)
  with assms SaveRejected show ?thesis
    by (auto simp: handle_def saveRejected_def setTimeout_def attemptsPositive_def Let_def)
next
  case Online
  from assms have "attemptsPositive (s\<lparr>isOnlineRef := True\<rparr>)" by (simp add: attemptsPositive_def)
  with Online assms show ?thesis
    by (cases "pendingDataRef s")
       (simp_all add: handle_def handleOnline_def Let_def attemptsPositive_executeAutoSave)
next
  case Offline with assms show ?thesis
    by (simp add: handle_def handleOffline_def attemptsPositive_def)
next
  case BeforeUnload with assms show ?thesis
    by (auto simp: handle_def handleBeforeUnload_def saveToLocalStorage_def clearTimeout_def
          clearDebounceTimer_def attemptsPositive_def split: option.splits)
next
  case Unmount with assms show ?thesis
    by (auto simp: handle_def unmount_def clearTimeout_def clearDebounceTimer_def
          attemptsPositive_def split: option.splits)
next
  case ClearError with assms show ?thesis by (simp add: handle_def attemptsPositive_def)
qed

lemma attemptsPositive_run: "attemptsPositive s \<Longrightarrow> attemptsPositive (run opts evs s)"
proof (induction evs arbitrary: s)
  case Nil then show ?case by (simp add: run_Nil)
next
  case (Cons e evs)
  from Cons.prems have "attemptsPositive (step opts e s)"
    by (simp add: step_def attemptsPositive_handle attemptsPositive_advance)
  then have "attemptsPositive (run opts evs (step opts e s))" by (rule Cons.IH)
  then show ?case by (simp only: run_Cons)
qed

text \<open>
  In every state the hook reaches, the attempt number of a call in flight is at least 1.
\<close>

lemma attempts_counted_from_one:
  assumes "c \<in> set (awaiting (run opts evs (initialHook online w)))"
  shows "1 \<le> attemptNumber c"
proof -
  have "attemptsPositive (initialHook online w)"
    by (simp add: attemptsPositive_def initialHook_def)
  then have "attemptsPositive (run opts evs (initialHook online w))"
    by (rule attemptsPositive_run)
  with assms show ?thesis unfolding attemptsPositive_def by blast
qed

lemma rejected_timers:
  assumes "k < length (awaiting s)"
  shows "timers (handle opts (SaveRejected k r) s) =
           (if attemptNumber (awaiting s ! k) < maxRetries opts
            then timers s @
                   [\<lparr>timerId = nextTimerId s,
                     dueAt = clock s + retryDelay opts * 2 ^ (attemptNumber (awaiting s ! k) - 1),
                     callback = RetryCallback (attemptNumber (awaiting s ! k) + 1)\<rparr>]
            else timers s)"
  using assms by (simp add: handle_def saveRejected_def setTimeout_def Let_def)

lemma fails_twice_then_succeeds:
  assumes "idle s0" and "clock s0 \<le> t0"
    and "maxRetries opts = 3"
    and "t0 + debounceDelay opts \<le> r1"
    and "r1 + retryDelay opts \<le> r2"
    and "r2 + 2 * retryDelay opts \<le> r3"
  shows "onSaveCalls (advance (r3 + k) (run opts
             [(t0, AutoSave d), (r1, SaveRejected 0 x1), (r2, SaveRejected 0 x2), (r3, SaveResolved 0)]
             s0))
           = onSaveCalls s0 @
             [(t0 + debounceDelay opts, d), (r1 + retryDelay opts, d), (r2 + 2 * retryDelay opts, d)] \<and>
         error (advance (r3 + k) (run opts
             [(t0, AutoSave d), (r1, SaveRejected 0 x1), (r2, SaveRejected 0 x2), (r3, SaveResolved 0)]
             s0)) = None \<and>
         lastSavedAt (advance (r3 + k) (run opts
             [(t0, AutoSave d), (r1, SaveRejected 0 x1), (r2, SaveRejected 0 x2), (r3, SaveResolved 0)]
             s0)) = Some r3 \<and>
         \<not> isSaving (advance (r3 + k) (run opts
             [(t0, AutoSave d), (r1, SaveRejected 0 x1), (r2, SaveRejected 0 x2), (r3, SaveResolved 0)]
             s0)) \<and>
         settled (advance (r3 + k) (run opts
             [(t0, AutoSave d), (r1, SaveRejected 0 x1), (r2, SaveRejected 0 x2), (r3, SaveResolved 0)]
             s0))"
proof -
  let ?D = "debounceDelay opts" and ?R = "retryDelay opts" and ?L = "onSaveCalls s0"
  let ?s1 = "step opts (t0, AutoSave d) s0"
  let ?a2 = "advance r1 ?s1"
  let ?s2 = "handle opts (SaveRejected 0 x1) ?a2"
  let ?a3 = "advance r2 ?s2"
  let ?s3 = "handle opts (SaveRejected 0 x2) ?a3"
  let ?a4 = "advance r3 ?s3"
  let ?s4 = "handle opts (SaveResolved 0) ?a4"
  from first_autoSave[OF assms(1,2), of opts d]
  have f1: "debouncing ?s1 (t0 + ?D) d" "onSaveCalls ?s1 = ?L" by simp_all
  from debounce_fires[OF f1(1) assms(4)] f1(2)
  have f2: "saving ?a2 d 1" "onSaveCalls ?a2 = ?L @ [(t0 + ?D, d)]" "clock ?a2 = r1" by simp_all
  from rejected_retries[OF f2(1), of opts x1] assms(3) f2(2,3)
  have f3: "retrying ?s2 (r1 + ?R) d 2" "onSaveCalls ?s2 = ?L @ [(t0 + ?D, d)]"
    by (simp_all add: numeral_2_eq_2)
  from retry_fires[OF f3(1) assms(5)] f3(2)
  have f4: "saving ?a3 d 2" "onSaveCalls ?a3 = ?L @ [(t0 + ?D, d), (r1 + ?R, d)]" "clock ?a3 = r2"
    by simp_all
  from rejected_retries[OF f4(1), of opts x2] assms(3) f4(2,3)
  have f5: "retrying ?s3 (r2 + 2 * ?R) d 3" "onSaveCalls ?s3 = ?L @ [(t0 + ?D, d), (r1 + ?R, d)]"
    by (simp_all add: numeral_2_eq_2 numeral_3_eq_3)
  from retry_fires[OF f5(1) assms(6)] f5(2)
  have f6: "saving ?a4 d 3"
    "onSaveCalls ?a4 = ?L @ [(t0 + ?D, d), (r1 + ?R, d), (r2 + 2 * ?R, d)]"
    "clock ?a4 = r3" by simp_all
  from resolved_settles[OF f6(1), of opts] f6(2,3)
  have f7: "settled ?s4" "onSaveCalls ?s4 = ?L @ [(t0 + ?D, d), (r1 + ?R, d), (r2 + 2 * ?R, d)]"
    "error ?s4 = None" "lastSavedAt ?s4 = Some r3" "\<not> isSaving ?s4" by simp_all
  have r: "run opts [(t0, AutoSave d), (r1, SaveRejected 0 x1), (r2, SaveRejected 0 x2),
             (r3, SaveResolved 0)] s0 = ?s4"
    by (simp add: run_Cons run_Nil step_def)
  from f7 show ?thesis unfolding r by (simp add: settled_waits[OF f7(1)] settled_def)
qed

lemma retry_not_before_due:
  assumes "retrying s due d n" and "t < due"
  shows "onSaveCalls (advance t s) = onSaveCalls s"
proof -
  from assms(1) obtain i where
    tm: "timers s = [\<lparr>timerId = i, dueAt = due, callback = RetryCallback n\<rparr>]"
    by (auto simp: retrying_def)
  have "advance t s = s\<lparr>clock := max (clock s) t\<rparr>"
    using assms(2) by (intro advance_none) (simp add: tm)
  then show ?thesis by simp
qed

lemma rejected_then_retried:
  assumes "saving s d n" and "n < maxRetries opts"
  shows "(t < clock s + retryDelay opts * 2 ^ (n - 1) \<longrightarrow>
            onSaveCalls (advance t (handle opts (SaveRejected 0 r) s)) = onSaveCalls s) \<and>
         (clock s + retryDelay opts * 2 ^ (n - 1) \<le> t \<longrightarrow>
            onSaveCalls (advance t (handle opts (SaveRejected 0 r) s))
              = onSaveCalls s @ [(clock s + retryDelay opts * 2 ^ (n - 1), d)] \<and>
            saving (advance t (handle opts (SaveRejected 0 r) s)) d (n + 1))"
proof -
  let ?s' = "handle opts (SaveRejected 0 r) s"
  let ?due = "clock s + retryDelay opts * 2 ^ (n - 1)"
  from rejected_retries[OF assms, of r]
  have r: "retrying ?s' ?due d (n + 1)" and l: "onSaveCalls ?s' = onSaveCalls s" by simp_all
  have a: "t < ?due \<longrightarrow> onSaveCalls (advance t ?s') = onSaveCalls s"
    using retry_not_before_due[OF r, of t] l by simp
  have b: "?due \<le> t \<longrightarrow> onSaveCalls (advance t ?s') = onSaveCalls s @ [(?due, d)] \<and>
             saving (advance t ?s') d (n + 1)"
    using retry_fires[OF r, of t] l by simp
  from a b show ?thesis by blast
qed

lemma rejected_never_retried:
  assumes "saving s d n" and "\<not> n < maxRetries opts"
  shows "onSaveCalls (advance t (handle opts (SaveRejected 0 r) s)) = onSaveCalls s \<and>
         timers (advance t (handle opts (SaveRejected 0 r) s)) = [] \<and>
         awaiting (advance t (handle opts (SaveRejected 0 r) s)) = [] \<and>
         error (advance t (handle opts (SaveRejected 0 r) s)) = Some (toError r)"
proof -
  let ?s' = "handle opts (SaveRejected 0 r) s"
  from rejected_gives_up[OF assms, of r]
  have g: "timers ?s' = []" "awaiting ?s' = []" "onSaveCalls ?s' = onSaveCalls s"
    "error ?s' = Some (toError r)" by simp_all
  have "advance t ?s' = ?s'\<lparr>clock := max (clock ?s') t\<rparr>"
    by (intro advance_none) (simp add: g)
  with g show ?thesis by simp
qed

text \<open>
  Claim C5. When the call of \<open>onSave\<close> of attempt \<open>n\<close> is rejected and \<open>n\<close> is below
  \<open>maxRetries\<close>, a timer is set that retries, as attempt \<open>n + 1\<close>, after
  \<open>retryDelay * 2^(n-1)\<close>: with attempt \<open>n\<close> in flight (\<open>saving s d n\<close>), \<open>onSave\<close> is
  not called before that delay has run out and is called, with the pending payload, when
  it has. When \<open>n\<close> has reached \<open>maxRetries\<close> no timer is set and the passing of time
  brings no further call; the error stays. With \<open>maxRetries = 3\<close>, on a hook that is
  online and at rest, a save that fails twice (at \<open>r1\<close> and \<open>r2\<close>) and then succeeds (at
  \<open>r3\<close>) is called exactly three times: when the debounce delay has run out,
  \<open>retryDelay\<close> after the first failure and \<open>2 * retryDelay\<close> after the second; the hook
  ends with no error, \<open>lastSavedAt\<close> set, not saving, and nothing pending.
\<close>

theorem retry_with_exponential_backoff:
  "(\<forall>(s::autosave) i r. i < length (awaiting s) \<and> 1 \<le> attemptNumber (awaiting s ! i) \<and>
        attemptNumber (awaiting s ! i) < maxRetries opts \<longrightarrow>
      timers (handle opts (SaveRejected i r) s) =
        timers s @ [\<lparr>timerId = nextTimerId s,
                     dueAt = clock s + retryDelay opts * 2 ^ (attemptNumber (awaiting s ! i) - 1),
                     callback = RetryCallback (attemptNumber (awaiting s ! i) + 1)\<rparr>]) \<and>
   (\<forall>(s::autosave) i r. i < length (awaiting s) \<and> \<not> attemptNumber (awaiting s ! i) < maxRetries opts \<longrightarrow>
      timers (handle opts (SaveRejected i r) s) = timers s) \<and>
   (\<forall>s p n r t. saving s p n \<and> 1 \<le> n \<and> n < maxRetries opts \<longrightarrow>
      (t < clock s + retryDelay opts * 2 ^ (n - 1) \<longrightarrow>
         onSaveCalls (advance t (handle opts (SaveRejected 0 r) s)) = onSaveCalls s) \<and>
      (clock s + retryDelay opts * 2 ^ (n - 1) \<le> t \<longrightarrow>
         onSaveCalls (advance t (handle opts (SaveRejected 0 r) s))
           = onSaveCalls s @ [(clock s + retryDelay opts * 2 ^ (n - 1), p)] \<and>
         saving (advance t (handle opts (SaveRejected 0 r) s)) p (n + 1))) \<and>
   (\<forall>s p n r t. saving s p n \<and> \<not> n < maxRetries opts \<longrightarrow>
      onSaveCalls (advance t (handle opts (SaveRejected 0 r) s)) = onSaveCalls s \<and>
      timers (advance t (handle opts (SaveRejected 0 r) s)) = [] \<and>
      awaiting (advance t (handle opts (SaveRejected 0 r) s)) = [] \<and>
      error (advance t (handle opts (SaveRejected 0 r) s)) = Some (toError r)) \<and>
   (idle s0 \<and> clock s0 \<le> t0 \<and> maxRetries opts = 3 \<and> t0 + debounceDelay opts \<le> r1 \<and>
    r1 + retryDelay opts \<le> r2 \<and> r2 + 2 * retryDelay opts \<le> r3 \<longrightarrow>
      onSaveCalls (advance (r3 + k) (run opts
             [(t0, AutoSave d), (r1, SaveRejected 0 x1), (r2, SaveRejected 0 x2), (r3, SaveResolved 0)]
             s0))
        = onSaveCalls s0 @
          [(t0 + debounceDelay opts, d), (r1 + retryDelay opts, d), (r2 + 2 * retryDelay opts, d)] \<and>
      error (advance (r3 + k) (run opts
             [(t0, AutoSave d), (r1, SaveRejected 0 x1), (r2, SaveRejected 0 x2), (r3, SaveResolved 0)]
             s0)) = None \<and>
      lastSavedAt (advance (r3 + k) (run opts
             [(t0, AutoSave d), (r1, SaveRejected 0 x1), (r2, SaveRejected 0 x2), (r3, SaveResolved 0)]
             s0)) = Some r3 \<and>
      \<not> isSaving (advance (r3 + k) (run opts
             [(t0, AutoSave d), (r1, SaveRejected 0 x1), (r2, SaveRejected 0 x2), (r3, SaveResolved 0)]
             s0)) \<and>
      settled (advance (r3 + k) (run opts
             [(t0, AutoSave d), (r1, SaveRejected 0 x1), (r2, SaveRejected 0 x2), (r3, SaveResolved 0)]
             s0)))"
proof -
  have a: "\<forall>(s::autosave) i r. i < length (awaiting s) \<and> 1 \<le> attemptNumber (awaiting s ! i) \<and>
        attemptNumber (awaiting s ! i) < maxRetries opts \<longrightarrow>
      timers (handle opts (SaveRejected i r) s) =
        timers s @ [\<lparr>timerId = nextTimerId s,
                     dueAt = clock s + retryDelay opts * 2 ^ (attemptNumber (awaiting s ! i) - 1),
                     callback = RetryCallback (attemptNumber (awaiting s ! i) + 1)\<rparr>]"
    by (simp add: rejected_timers)
  have b: "\<forall>(s::autosave) i r. i < length (awaiting s) \<and>
        \<not> attemptNumber (awaiting s ! i) < maxRetries opts \<longrightarrow>
      timers (handle opts (SaveRejected i r) s) = timers s"
    by (simp add: rejected_timers)
  have c: "\<forall>s p n r t. saving s p n \<and> 1 \<le> n \<and> n < maxRetries opts \<longrightarrow>
      (t < clock s + retryDelay opts * 2 ^ (n - 1) \<longrightarrow>
         onSaveCalls (advance t (handle opts (SaveRejected 0 r) s)) = onSaveCalls s) \<and>
      (clock s + retryDelay opts * 2 ^ (n - 1) \<le> t \<longrightarrow>
         onSaveCalls (advance t (handle opts (SaveRejected 0 r) s))
           = onSaveCalls s @ [(clock s + retryDelay opts * 2 ^ (n - 1), p)] \<and>
         saving (advance t (handle opts (SaveRejected 0 r) s)) p (n + 1))"
    using rejected_then_retried by blast
  have d: "\<forall>s p n r t. saving s p n \<and> \<not> n < maxRetries opts \<longrightarrow>
      onSaveCalls (advance t (handle opts (SaveRejected 0 r) s)) = onSaveCalls s \<and>
      timers (advance t (handle opts (SaveRejected 0 r) s)) = [] \<and>
      awaiting (advance t (handle opts (SaveRejected 0 r) s)) = [] \<and>
      error (advance t (handle opts (SaveRejected 0 r) s)) = Some (toError r)"
    using rejected_never_retried by blast
  note e = fails_twice_then_succeeds[of s0 t0 opts r1 r2 r3 k d x1 x2]
  from a b c d e show ?thesis by blast
qed

theorem retry_with_exponential_backoff_witness:
  "0 < length (awaiting ((initialHook True True)
        \<lparr>awaiting := [\<lparr>callData = samplePost (lit ''a'') (lit ''Hello''), attemptNumber = 2\<rparr>],
         clock := 5000\<rparr>)) \<and>
   timers (handle defaultOptions (SaveRejected 0 OtherValue) ((initialHook True True)
        \<lparr>awaiting := [\<lparr>callData = samplePost (lit ''a'') (lit ''Hello''), attemptNumber = 2\<rparr>],
         clock := 5000\<rparr>))
     = [\<lparr>timerId = 1, dueAt = 7000, callback = RetryCallback 3\<rparr>] \<and>
   timers (handle defaultOptions (SaveRejected 0 OtherValue) ((initialHook True True)
        \<lparr>awaiting := [\<lparr>callData = samplePost (lit ''a'') (lit ''Hello''), attemptNumber = 3\<rparr>],
         clock := 5000\<rparr>))
     = [] \<and>
   saving ((initialHook True True)
        \<lparr>awaiting := [\<lparr>callData = samplePost (lit ''a'') (lit ''Hello''), attemptNumber = 2\<rparr>],
         isSavingRef := True, pendingDataRef := Some (samplePost (lit ''a'') (lit ''Hello'')),
         clock := 5000\<rparr>) (samplePost (lit ''a'') (lit ''Hello'')) 2 \<and>
   onSaveCalls (advance 6999 (handle defaultOptions (SaveRejected 0 OtherValue) ((initialHook True True)
        \<lparr>awaiting := [\<lparr>callData = samplePost (lit ''a'') (lit ''Hello''), attemptNumber = 2\<rparr>],
         isSavingRef := True, pendingDataRef := Some (samplePost (lit ''a'') (lit ''Hello'')),
         clock := 5000\<rparr>))) = [] \<and>
   onSaveCalls (advance 7000 (handle defaultOptions (SaveRejected 0 OtherValue) ((initialHook True True)
        \<lparr>awaiting := [\<lparr>callData = samplePost (lit ''a'') (lit ''Hello''), attemptNumber = 2\<rparr>],
         isSavingRef := True, pendingDataRef := Some (samplePost (lit ''a'') (lit ''Hello'')),
         clock := 5000\<rparr>))) = [(7000, samplePost (lit ''a'') (lit ''Hello''))] \<and>
   saving ((initialHook True True)
        \<lparr>awaiting := [\<lparr>callData = samplePost (lit ''a'') (lit ''Hello''), attemptNumber = 3\<rparr>],
         isSavingRef := True, pendingDataRef := Some (samplePost (lit ''a'') (lit ''Hello'')),
         clock := 9000\<rparr>) (samplePost (lit ''a'') (lit ''Hello'')) 3 \<and>
   onSaveCalls (advance 99000 (handle defaultOptions (SaveRejected 0 OtherValue) ((initialHook True True)
        \<lparr>awaiting := [\<lparr>callData = samplePost (lit ''a'') (lit ''Hello''), attemptNumber = 3\<rparr>],
         isSavingRef := True, pendingDataRef := Some (samplePost (lit ''a'') (lit ''Hello'')),
         clock := 9000\<rparr>))) = [] \<and>
   idle (initialHook True True) \<and> clock (initialHook True True) \<le> 0 \<and>
   maxRetries defaultOptions = 3 \<and> 0 + debounceDelay defaultOptions \<le> 3100 \<and>
   3100 + retryDelay defaultOptions \<le> 4200 \<and> 4200 + 2 * retryDelay defaultOptions \<le> 6300 \<and>
   onSaveCalls (advance (6300 + 700) (run defaultOptions
       [(0, AutoSave (samplePost (lit ''a'') (lit ''Hello''))),
        (3100, SaveRejected 0 (ErrorObject (lit ''quota''))), (4200, SaveRejected 0 OtherValue),
        (6300, SaveResolved 0)] (initialHook True True)))
     = [(3000, samplePost (lit ''a'') (lit ''Hello'')), (4100, samplePost (lit ''a'') (lit ''Hello'')),
        (6200, samplePost (lit ''a'') (lit ''Hello''))] \<and>
   error (advance (6300 + 700) (run defaultOptions
       [(0, AutoSave (samplePost (lit ''a'') (lit ''Hello''))),
        (3100, SaveRejected 0 (ErrorObject (lit ''quota''))), (4200, SaveRejected 0 OtherValue),
        (6300, SaveResolved 0)] (initialHook True True))) = None \<and>
   lastSavedAt (advance (6300 + 700) (run defaultOptions
       [(0, AutoSave (samplePost (lit ''a'') (lit ''Hello''))),
        (3100, SaveRejected 0 (ErrorObject (lit ''quota''))), (4200, SaveRejected 0 OtherValue),
        (6300, SaveResolved 0)] (initialHook True True))) = Some 6300"
proof -
  let ?d = "samplePost (lit ''a'') (lit ''Hello'')"
  let ?S2 = "(initialHook True True)\<lparr>awaiting := [\<lparr>callData = ?d, attemptNumber = 2\<rparr>], clock := 5000\<rparr>"
  let ?S3 = "(initialHook True True)\<lparr>awaiting := [\<lparr>callData = ?d, attemptNumber = 3\<rparr>], clock := 5000\<rparr>"
  let ?V2 = "(initialHook True True)\<lparr>awaiting := [\<lparr>callData = ?d, attemptNumber = 2\<rparr>],
         isSavingRef := True, pendingDataRef := Some ?d, clock := 5000\<rparr>"
  let ?V3 = "(initialHook True True)\<lparr>awaiting := [\<lparr>callData = ?d, attemptNumber = 3\<rparr>],
         isSavingRef := True, pendingDataRef := Some ?d, clock := 9000\<rparr>"
  let ?evs = "[(0, AutoSave ?d), (3100, SaveRejected 0 (ErrorObject (lit ''quota''))),
        (4200, SaveRejected 0 OtherValue), (6300, SaveResolved 0)]"
  note T = retry_with_exponential_backoff[of defaultOptions "initialHook True True" 0 3100 4200 6300
      700 ?d "ErrorObject (lit ''quota'')" OtherValue]
  have o: "maxRetries defaultOptions = 3" "debounceDelay defaultOptions = 3000"
    "retryDelay defaultOptions = 1000" by (simp_all add: defaultOptions_def)
  have a2: "0 < length (awaiting ?S2) \<and> 1 \<le> attemptNumber (awaiting ?S2 ! 0) \<and>
             attemptNumber (awaiting ?S2 ! 0) < maxRetries defaultOptions"
    by (simp add: o)
  have a3: "0 < length (awaiting ?S3) \<and> \<not> attemptNumber (awaiting ?S3 ! 0) < maxRetries defaultOptions"
    by (simp add: o)
  from T a2 have "timers (handle defaultOptions (SaveRejected 0 OtherValue) ?S2) =
        timers ?S2 @ [\<lparr>timerId = nextTimerId ?S2,
                     dueAt = clock ?S2 + retryDelay defaultOptions * 2 ^ (attemptNumber (awaiting ?S2 ! 0) - 1),
                     callback = RetryCallback (attemptNumber (awaiting ?S2 ! 0) + 1)\<rparr>]"
    by blast
  then have p1: "timers (handle defaultOptions (SaveRejected 0 OtherValue) ?S2)
                   = [\<lparr>timerId = 1, dueAt = 7000, callback = RetryCallback 3\<rparr>]"
    by (simp add: o initialHook_def)
  from T a3 have "timers (handle defaultOptions (SaveRejected 0 OtherValue) ?S3) = timers ?S3"
    by blast
  then have p2: "timers (handle defaultOptions (SaveRejected 0 OtherValue) ?S3) = []"
    by (simp add: initialHook_def)
  have v2: "saving ?V2 ?d 2" by (simp add: saving_def initialHook_def)
  have v3: "saving ?V3 ?d 3" by (simp add: saving_def initialHook_def)
  have c2: "clock ?V2 + retryDelay defaultOptions * 2 ^ (2 - 1) = 7000" "onSaveCalls ?V2 = []"
    by (simp_all add: o initialHook_def)
  have n2: "(1::nat) \<le> 2 \<and> 2 < maxRetries defaultOptions" by (simp add: o)
  from T v2 n2 have
    "(6999 < clock ?V2 + retryDelay defaultOptions * 2 ^ (2 - 1) \<longrightarrow>
         onSaveCalls (advance 6999 (handle defaultOptions (SaveRejected 0 OtherValue) ?V2))
           = onSaveCalls ?V2) \<and>
     (clock ?V2 + retryDelay defaultOptions * 2 ^ (2 - 1) \<le> 7000 \<longrightarrow>
         onSaveCalls (advance 7000 (handle defaultOptions (SaveRejected 0 OtherValue) ?V2))
           = onSaveCalls ?V2 @ [(clock ?V2 + retryDelay defaultOptions * 2 ^ (2 - 1), ?d)])"
    by blast
  then have p5: "onSaveCalls (advance 6999 (handle defaultOptions (SaveRejected 0 OtherValue) ?V2)) = []"
    and p6: "onSaveCalls (advance 7000 (handle defaultOptions (SaveRejected 0 OtherValue) ?V2))
               = [(7000, ?d)]"
    unfolding c2 by simp_all
  have n3: "\<not> 3 < maxRetries defaultOptions" by (simp add: o)
  from T v3 n3 have
    "onSaveCalls (advance 99000 (handle defaultOptions (SaveRejected 0 OtherValue) ?V3))
       = onSaveCalls ?V3"
    by blast
  then have p7: "onSaveCalls (advance 99000 (handle defaultOptions (SaveRejected 0 OtherValue) ?V3)) = []"
    by (simp add: initialHook_def)
  have h: "idle (initialHook True True) \<and> clock (initialHook True True) \<le> 0 \<and>
      maxRetries defaultOptions = 3 \<and> 0 + debounceDelay defaultOptions \<le> 3100 \<and>
      3100 + retryDelay defaultOptions \<le> 4200 \<and> 4200 + 2 * retryDelay defaultOptions \<le> 6300"
    by (simp add: o idle_initialHook)
  from T h have p3:
    "onSaveCalls (advance (6300 + 700) (run defaultOptions ?evs (initialHook True True)))
     = onSaveCalls (initialHook True True) @
       [(0 + debounceDelay defaultOptions, ?d), (3100 + retryDelay defaultOptions, ?d),
        (4200 + 2 * retryDelay defaultOptions, ?d)] \<and>
     error (advance (6300 + 700) (run defaultOptions ?evs (initialHook True True))) = None \<and>
     lastSavedAt (advance (6300 + 700) (run defaultOptions ?evs (initialHook True True))) = Some 6300"
    by blast
  have t: "0 + debounceDelay defaultOptions = 3000" "3100 + retryDelay defaultOptions = 4100"
    "4200 + 2 * retryDelay defaultOptions = 6200" "onSaveCalls (initialHook True True) = []"
    by (simp_all add: o idle_initialHook)
  from p3 have p4:
    "onSaveCalls (advance (6300 + 700) (run defaultOptions ?evs (initialHook True True)))
     = [(3000, ?d), (4100, ?d), (6200, ?d)]"
    unfolding t by simp
  from a2 p1 p2 v2 p5 p6 v3 p7 h p3 p4 show ?thesis by blast
qed

end
